theory Spec2Isabelle
  imports Main "HOL-Library.Sublist" "HOL-Library.Multiset"
begin

section \<open>Strings\<close>

text \<open>
  A JavaScript string is a sequence of UTF-16 code units. The model uses \<^typ>\<open>string\<close>
  and reads each \<^typ>\<open>char\<close> as the code unit of the same number, so it covers the
  strings over U+0000 .. U+00FF. The white space of \<^verbatim>\<open>trim\<close>, \<^verbatim>\<open>trimEnd\<close> and of
  \<^verbatim>\<open>\s\<close> in a regular expression is, in that range: TAB, LF, VT, FF, CR, SPACE and
  NBSP (U+00A0).
\<close>

definition isWhiteSpace :: "char \<Rightarrow> bool" where
  "isWhiteSpace c \<longleftrightarrow>
     c = CHR 0x09 \<or> c = CHR 0x0A \<or> c = CHR 0x0B \<or> c = CHR 0x0C \<or> c = CHR 0x0D \<or>
     c = CHR 0x20 \<or> c = CHR 0xA0"

definition trimStart :: "string \<Rightarrow> string" where
  "trimStart s = dropWhile isWhiteSpace s"

definition trimEnd :: "string \<Rightarrow> string" where
  "trimEnd s = rev (dropWhile isWhiteSpace (rev s))"

definition trim :: "string \<Rightarrow> string" where
  "trim s = trimStart (trimEnd s)"

text \<open>\<^verbatim>\<open>s.endsWith('>')\<close> for a one-character argument.\<close>

definition endsWithChar :: "string \<Rightarrow> char \<Rightarrow> bool" where
  "endsWithChar s c \<longleftrightarrow> s \<noteq> [] \<and> last s = c"

section \<open>The query parser\<close>

datatype error = TypeError | SyntaxError

datatype relationship = Filter | Descendant | Child

text \<open>
  A part is \<^verbatim>\<open>{type: 'selector', selector}\<close> or
  \<^verbatim>\<open>{type: 'selector-with-rules', selector, relationship, rules}\<close>.
\<close>

datatype part =
  Selector string
  | SelectorWithRules string relationship string

text \<open>The local variables of \<^verbatim>\<open>parseQuery\<close>; \<^verbatim>\<open>quoteChar\<close> is \<^verbatim>\<open>''\<close> or one character.\<close>

record pstate =
  parts :: "part list"
  currentSelector :: string
  inRules :: bool
  currentRules :: string
  braceDepth :: int
  inQuotes :: bool
  quoteChar :: string

definition initialState :: pstate where
  "initialState = \<lparr> parts = [], currentSelector = [], inRules = False, currentRules = [],
     braceDepth = 0, inQuotes = False, quoteChar = [] \<rparr>"

text \<open>
  The part pushed at an opening brace outside quotes (lines 56 to 85):
  \<^verbatim>\<open>slice(0, -1)\<close> is \<^const>\<open>butlast\<close>, and \<^verbatim>\<open>spacesBeforeBrace\<close> is the difference of
  the two lengths.
\<close>

definition openPart :: "string \<Rightarrow> part" where
  "openPart cs =
     (let trimmedSelector = trim cs in
      if endsWithChar trimmedSelector (CHR 0x3E) then
        SelectorWithRules (trim (butlast trimmedSelector)) Child []
      else
        (let trimmedEnd = trimEnd cs;
             spacesBeforeBrace = int (length cs) - int (length trimmedEnd)
         in SelectorWithRules (trim cs)
              (if spacesBeforeBrace = 1 then Descendant else Filter) []))"

text \<open>
  \<^verbatim>\<open>parts[parts.length - 1].rules = r\<close>: a TypeError on the empty array. On a plain
  selector part the assignment would add a property that nothing reads, so the part is
  left as it is.
\<close>

definition setLastRules :: "part list \<Rightarrow> string \<Rightarrow> error + part list" where
  "setLastRules ps r =
     (if ps = [] then Inl TypeError
      else (case last ps of
              SelectorWithRules sel rel _ \<Rightarrow> Inr (butlast ps @ [SelectorWithRules sel rel r])
            | Selector sel \<Rightarrow> Inr ps))"

text \<open>
  One round of the \<^verbatim>\<open>while\<close> loop on the character \<open>ch\<close>; \<open>prev\<close> is
  \<^verbatim>\<open>query[i - 1]\<close>, \<^const>\<open>None\<close> for \<^verbatim>\<open>undefined\<close> at \<open>i = 0\<close>. The characters are
  written by code: 0x22 and 0x27 the two quotes, 0x5C the backslash, 0x7B and 0x7D the
  braces.
\<close>

definition step :: "char option \<Rightarrow> char \<Rightarrow> pstate \<Rightarrow> error + pstate" where
  "step prev ch s =
     (if \<not> inRules s \<and> (ch = CHR 0x22 \<or> ch = CHR 0x27) then
        (let s1 = (if \<not> inQuotes s then s\<lparr>inQuotes := True, quoteChar := [ch]\<rparr>
                   else if [ch] = quoteChar s \<and> prev \<noteq> Some (CHR 0x5C)
                        then s\<lparr>inQuotes := False, quoteChar := []\<rparr>
                   else s)
         in Inr (s1\<lparr>currentSelector := currentSelector s1 @ [ch]\<rparr>))
      else if \<not> inRules s then
        (if ch = CHR 0x7B \<and> \<not> inQuotes s then
           Inr (s\<lparr>parts := parts s @ [openPart (currentSelector s)],
                  currentSelector := [], inRules := True, braceDepth := 1\<rparr>)
         else Inr (s\<lparr>currentSelector := currentSelector s @ [ch]\<rparr>))
      else if ch = CHR 0x7B then
        Inr (s\<lparr>braceDepth := braceDepth s + 1, currentRules := currentRules s @ [ch]\<rparr>)
      else if ch = CHR 0x7D then
        (if braceDepth s - 1 = 0 then
           (case setLastRules (parts s) (trim (currentRules s)) of
              Inl e \<Rightarrow> Inl e
            | Inr ps \<Rightarrow> Inr (s\<lparr>braceDepth := braceDepth s - 1, parts := ps,
                                 currentRules := [], inRules := False\<rparr>))
         else Inr (s\<lparr>braceDepth := braceDepth s - 1, currentRules := currentRules s @ [ch]\<rparr>))
      else Inr (s\<lparr>currentRules := currentRules s @ [ch]\<rparr>))"

text \<open>The loop over the characters that are left.\<close>

fun scan :: "pstate \<Rightarrow> char option \<Rightarrow> string \<Rightarrow> error + pstate" where
  "scan s prev [] = Inr s"
| "scan s prev (ch # rest) =
     (case step prev ch s of Inl e \<Rightarrow> Inl e | Inr s' \<Rightarrow> scan s' (Some ch) rest)"

definition finish :: "pstate \<Rightarrow> part list" where
  "finish s = (if trim (currentSelector s) \<noteq> []
               then parts s @ [Selector (trim (currentSelector s))] else parts s)"

definition parseQuery :: "string \<Rightarrow> error + part list" where
  "parseQuery query = (case scan initialState None query of Inl e \<Rightarrow> Inl e | Inr s \<Rightarrow> Inr (finish s))"

section \<open>Rule blocks\<close>

text \<open>\<^verbatim>\<open>s.split(sep)\<close> for a one-character separator: the empty string gives one empty piece.\<close>

fun splitOn :: "char \<Rightarrow> string \<Rightarrow> string list" where
  "splitOn sep [] = [[]]"
| "splitOn sep (c # cs) =
     (if c = sep then [] # splitOn sep cs
      else (case splitOn sep cs of [] \<Rightarrow> [[c]] | w # ws \<Rightarrow> (c # w) # ws))"

definition isDigit :: "char \<Rightarrow> bool" where
  "isDigit c \<longleftrightarrow> c \<in> set ''0123456789''"

definition digitValue :: "char \<Rightarrow> int" where
  "digitValue c = of_char c - 48"

definition decimalValue :: "string \<Rightarrow> int" where
  "decimalValue s = foldl (\<lambda>n c. 10 * n + digitValue c) 0 s"

text \<open>
  A plain object as the list of its own properties in creation order. An assignment keeps
  the place of a key that exists. The key \<^verbatim>\<open>__proto__\<close> is the accessor inherited from
  \<^verbatim>\<open>Object.prototype\<close>, whose setter ignores a string: the assignment creates nothing.
\<close>

type_synonym rules = "(string \<times> string) list"

definition setProperty :: "rules \<Rightarrow> string \<Rightarrow> string \<Rightarrow> rules" where
  "setProperty obj k v =
     (if k = ''__proto__'' then obj
      else if map_of obj k \<noteq> None then map (\<lambda>(k', v'). if k' = k then (k', v) else (k', v')) obj
      else obj @ [(k, v)])"

text \<open>
  \<^verbatim>\<open>Object.entries\<close>: the array indices first (canonical decimal numerals below
  \<open>2\<^sup>3\<^sup>2 - 1\<close>) in ascending order, then the other keys in creation order.
\<close>

definition isArrayIndex :: "string \<Rightarrow> bool" where
  "isArrayIndex k \<longleftrightarrow>
     k \<noteq> [] \<and> list_all isDigit k \<and> (k = ''0'' \<or> hd k \<noteq> CHR ''0'') \<and> decimalValue k < 4294967295"

definition entries :: "rules \<Rightarrow> (string \<times> string) list" where
  "entries obj =
     sort_key (\<lambda>kv. decimalValue (fst kv)) (filter (\<lambda>kv. isArrayIndex (fst kv)) obj)
     @ filter (\<lambda>kv. \<not> isArrayIndex (fst kv)) obj"

text \<open>
  The body of the \<^verbatim>\<open>for\<close> loop of \<^verbatim>\<open>parseCSSRules\<close> on one line: \<^verbatim>\<open>indexOf(':')\<close> is
  \<open>-1\<close> when the line has no colon.
\<close>

definition addLine :: "rules \<Rightarrow> string \<Rightarrow> rules" where
  "addLine rules line =
     (if CHR '':'' \<notin> set line then rules
      else
        (let property = trim (takeWhile (\<lambda>c. c \<noteq> CHR '':'') line);
             value = trim (drop 1 (dropWhile (\<lambda>c. c \<noteq> CHR '':'') line))
         in if property \<noteq> [] \<and> value \<noteq> [] then setProperty rules property value else rules))"

definition ruleLines :: "string \<Rightarrow> string list" where
  "ruleLines rulesString = filter (\<lambda>line. line \<noteq> []) (map trim (splitOn (CHR '';'') rulesString))"

definition parseCSSRules :: "string \<Rightarrow> rules" where
  "parseCSSRules rulesString = foldl addLine [] (ruleLines rulesString)"

section \<open>Property names and values\<close>

definition isLowerAZ :: "char \<Rightarrow> bool" where
  "isLowerAZ c \<longleftrightarrow> 97 \<le> (of_char c :: nat) \<and> (of_char c :: nat) \<le> 122"

text \<open>\<^verbatim>\<open>property.replace(/-([a-z])/g, (match, letter) => letter.toUpperCase())\<close>\<close>

fun normalizePropertyName :: "string \<Rightarrow> string" where
  "normalizePropertyName (c # d # rest) =
     (if c = CHR ''-'' \<and> isLowerAZ d
      then char_of (of_char d - (32 :: nat)) # normalizePropertyName rest
      else c # normalizePropertyName (d # rest))"
| "normalizePropertyName cs = cs"

text \<open>
  \<^verbatim>\<open>toLowerCase\<close> on the code units below 256: the letters A to Z, and U+00C0 to U+00DE
  but for the multiplication sign U+00D7, move up by 32.
\<close>

definition toLowerChar :: "char \<Rightarrow> char" where
  "toLowerChar c =
     (let n = (of_char c :: nat) in
      if (65 \<le> n \<and> n \<le> 90) \<or> (192 \<le> n \<and> n \<le> 222 \<and> n \<noteq> 215) then char_of (n + 32) else c)"

definition toLowerCase :: "string \<Rightarrow> string" where
  "toLowerCase s = map toLowerChar s"

definition isHexDigit :: "char \<Rightarrow> bool" where
  "isHexDigit c \<longleftrightarrow> c \<in> set ''0123456789abcdefABCDEF''"

definition hexDigitValue :: "char \<Rightarrow> nat" where
  "hexDigitValue c =
     (if isDigit c then of_char c - 48
      else if isLowerAZ c then of_char c - 87
      else of_char c - 55)"

text \<open>
  \<^verbatim>\<open>parseInt(s, 16)\<close>: leading white space, a sign, the prefix \<^verbatim>\<open>0x\<close>, then the longest
  run of hexadecimal digits; \<^const>\<open>None\<close> is \<^verbatim>\<open>NaN\<close>. The source only passes strings of at
  most two characters, so the number is exact.
\<close>

definition parseInt16 :: "string \<Rightarrow> int option" where
  "parseInt16 s =
     (let s1 = trimStart s;
          sign = (case s1 of [] \<Rightarrow> 1 | c # _ \<Rightarrow> if c = CHR ''-'' then - 1 else (1 :: int));
          s2 = (case s1 of [] \<Rightarrow> s1 | c # r \<Rightarrow> if c = CHR ''-'' \<or> c = CHR ''+'' then r else s1);
          s3 = (case s2 of c # x # r \<Rightarrow>
                  if c = CHR ''0'' \<and> (x = CHR ''x'' \<or> x = CHR ''X'') then r else s2
                | _ \<Rightarrow> s2);
          z = takeWhile isHexDigit s3
      in if z = [] then None
         else Some (sign * int (foldl (\<lambda>n c. 16 * n + hexDigitValue c) 0 z)))"

fun showNat :: "nat \<Rightarrow> string" where
  "showNat n =
     (if n < 10 then [char_of (48 + n)]
      else showNat (n div 10) @ [char_of (48 + n mod 10)])"

declare showNat.simps [simp del]

text \<open>The string of a number that is an integer or \<^verbatim>\<open>NaN\<close>.\<close>

definition numberToString :: "int option \<Rightarrow> string" where
  "numberToString x =
     (case x of None \<Rightarrow> ''NaN''
      | Some n \<Rightarrow> if n < 0 then CHR ''-'' # showNat (nat (- n)) else showNat (nat n))"

text \<open>\<^verbatim>\<open>s.substring(a, b)\<close> for \<open>a \<le> b\<close>, and \<^verbatim>\<open>s.replace(c, '')\<close> for a character \<open>c\<close>.\<close>

definition substring :: "nat \<Rightarrow> nat \<Rightarrow> string \<Rightarrow> string" where
  "substring a b s = take (b - a) (drop a s)"

definition removeFirst :: "char \<Rightarrow> string \<Rightarrow> string" where
  "removeFirst c s = takeWhile (\<lambda>x. x \<noteq> c) s @ drop 1 (dropWhile (\<lambda>x. x \<noteq> c) s)"

definition hexToRgb :: "string \<Rightarrow> string" where
  "hexToRgb hex0 =
     (let hex1 = removeFirst (CHR ''#'') hex0;
          hex = (if length hex1 = 3 then concat (map (\<lambda>h. [h, h]) hex1) else hex1);
          r = parseInt16 (substring 0 2 hex);
          g = parseInt16 (substring 2 4 hex);
          b = parseInt16 (substring 4 6 hex)
      in ''rgb('' @ numberToString r @ '','' @ numberToString g @ '','' @ numberToString b @ '')'')"

text \<open>\<^verbatim>\<open>/^#[0-9a-f]{3,6}$/i\<close>\<close>

definition isHexColor :: "string \<Rightarrow> bool" where
  "isHexColor v \<longleftrightarrow>
     (case v of [] \<Rightarrow> False
      | c # ds \<Rightarrow> c = CHR ''#'' \<and> 3 \<le> length ds \<and> length ds \<le> 6 \<and> list_all isHexDigit ds)"

text \<open>
  The regular expression of the HSL colours,
  \<^verbatim>\<open>/hsl\(\s*(\d+(?:\.\d+)?)\s*,\s*(\d+(?:\.\d+)?)%\s*,\s*(\d+(?:\.\d+)?)%\s*\)/i\<close>.
  Every repetition in it is followed by a character outside the repeated class, so the
  greedy reading is the only one: \<open>takeNumber\<close> reads a group, \<open>expectChar\<close> a literal.
\<close>

definition takeNumber :: "string \<Rightarrow> (string \<times> string) option" where
  "takeNumber s =
     (let ds = takeWhile isDigit s; r = dropWhile isDigit s in
      if ds = [] then None
      else (case r of
              [] \<Rightarrow> Some (ds, r)
            | c # r' \<Rightarrow>
                if c = CHR ''.'' \<and> takeWhile isDigit r' \<noteq> []
                then Some (ds @ c # takeWhile isDigit r', dropWhile isDigit r')
                else Some (ds, r)))"

definition expectChar :: "char \<Rightarrow> string \<Rightarrow> string option" where
  "expectChar c s = (case s of [] \<Rightarrow> None | x # r \<Rightarrow> if x = c then Some r else None)"

definition skipWhiteSpace :: "string \<Rightarrow> string" where
  "skipWhiteSpace s = dropWhile isWhiteSpace s"

definition hslPrefix :: "string \<Rightarrow> string option" where
  "hslPrefix s =
     (case s of
        h # s' # l # p # r \<Rightarrow>
          if (h = CHR ''h'' \<or> h = CHR ''H'') \<and> (s' = CHR ''s'' \<or> s' = CHR ''S'')
             \<and> (l = CHR ''l'' \<or> l = CHR ''L'') \<and> p = CHR ''(''
          then Some r else None
      | _ \<Rightarrow> None)"

definition matchHslAt :: "string \<Rightarrow> (string \<times> string \<times> string) option" where
  "matchHslAt s =
     Option.bind (hslPrefix s) (\<lambda>r0.
     Option.bind (takeNumber (skipWhiteSpace r0)) (\<lambda>(h, r1).
     Option.bind (expectChar (CHR '','') (skipWhiteSpace r1)) (\<lambda>r2.
     Option.bind (takeNumber (skipWhiteSpace r2)) (\<lambda>(s, r3).
     Option.bind (expectChar (CHR ''%'') r3) (\<lambda>r4.
     Option.bind (expectChar (CHR '','') (skipWhiteSpace r4)) (\<lambda>r5.
     Option.bind (takeNumber (skipWhiteSpace r5)) (\<lambda>(l, r6).
     Option.bind (expectChar (CHR ''%'') r6) (\<lambda>r7.
     Option.bind (expectChar (CHR '')'') (skipWhiteSpace r7)) (\<lambda>_. Some (h, s, l))))))))))"

text \<open>\<^verbatim>\<open>value.match(...)\<close>: the leftmost match.\<close>

fun hslMatch :: "string \<Rightarrow> (string \<times> string \<times> string) option" where
  "hslMatch [] = None"
| "hslMatch (c # cs) = (case matchHslAt (c # cs) of Some m \<Rightarrow> Some m | None \<Rightarrow> hslMatch cs)"

definition namedColors :: "(string \<times> string) list" where
  "namedColors =
     [(''transparent'', ''rgba(0,0,0,0)''), (''black'', ''rgb(0,0,0)''),
      (''white'', ''rgb(255,255,255)''), (''red'', ''rgb(255,0,0)''),
      (''green'', ''rgb(0,128,0)''), (''blue'', ''rgb(0,0,255)''),
      (''yellow'', ''rgb(255,255,0)''), (''cyan'', ''rgb(0,255,255)''),
      (''magenta'', ''rgb(255,0,255)''), (''gray'', ''rgb(128,128,128)''),
      (''grey'', ''rgb(128,128,128)'')]"

text \<open>
  \<^verbatim>\<open>namedColors\<close> is an object literal, so \<^verbatim>\<open>namedColors[value]\<close> also finds what
  \<^verbatim>\<open>Object.prototype\<close> holds under these names: functions, and the prototype itself
  under \<^verbatim>\<open>__proto__\<close>. Each is truthy and has no \<^verbatim>\<open>replace\<close> method.
\<close>

definition objectPrototypeKeys :: "string list" where
  "objectPrototypeKeys =
     [''constructor'', ''__defineGetter__'', ''__defineSetter__'', ''hasOwnProperty'',
      ''__lookupGetter__'', ''__lookupSetter__'', ''isPrototypeOf'', ''propertyIsEnumerable'',
      ''toString'', ''valueOf'', ''__proto__'', ''toLocaleString'']"

text \<open>\<^verbatim>\<open>/rgba?\([^)]+\)/\<close> at the start of \<open>s\<close>: the length of the match.\<close>

definition matchRgba :: "string \<Rightarrow> nat option" where
  "matchRgba s =
     (case s of
        r # g # b # t \<Rightarrow>
          if r = CHR ''r'' \<and> g = CHR ''g'' \<and> b = CHR ''b'' then
            (let n = (case t of [] \<Rightarrow> 3 | a # _ \<Rightarrow> if a = CHR ''a'' then 4 else (3 :: nat));
                 t1 = drop (n - 3) t
             in case t1 of
                  [] \<Rightarrow> None
                | p # t2 \<Rightarrow>
                    if p = CHR ''(''
                       \<and> takeWhile (\<lambda>c. c \<noteq> CHR '')'') t2 \<noteq> []
                       \<and> dropWhile (\<lambda>c. c \<noteq> CHR '')'') t2 \<noteq> []
                    then Some (n + 1 + length (takeWhile (\<lambda>c. c \<noteq> CHR '')'') t2) + 1)
                    else None)
          else None
      | _ \<Rightarrow> None)"

text \<open>
  \<^verbatim>\<open>value.replace(/rgba?\([^)]+\)/g, m => m.replace(/\s+/g, ''))\<close> as a scan: the
  counter is the number of characters of the current match still to come; inside a match
  the white space is dropped, outside every character is kept.
\<close>

fun rgbaReplace :: "nat \<Rightarrow> string \<Rightarrow> string" where
  "rgbaReplace k [] = []"
| "rgbaReplace (Suc k) (c # cs) =
     (if isWhiteSpace c then rgbaReplace k cs else c # rgbaReplace k cs)"
| "rgbaReplace 0 (c # cs) =
     (case matchRgba (c # cs) of
        None \<Rightarrow> c # rgbaReplace 0 cs
      | Some n \<Rightarrow> (if isWhiteSpace c then [] else [c]) @ rgbaReplace (n - 1) cs)"

definition stripWhiteSpace :: "string \<Rightarrow> string" where
  "stripWhiteSpace v = rgbaReplace 0 (filter (\<lambda>c. \<not> isWhiteSpace c) v)"

text \<open>
  \<^verbatim>\<open>normalizeCSSValue\<close>. The arithmetic of \<^verbatim>\<open>hslToRgb\<close> is in floating point and is not
  modelled: \<open>hsl h s l\<close> stands for
  \<^verbatim>\<open>hslToRgb(parseFloat(h), parseFloat(s), parseFloat(l))\<close> on the three matched groups.
\<close>

definition normalizeCSSValue :: "(string \<Rightarrow> string \<Rightarrow> string \<Rightarrow> string) \<Rightarrow> string \<Rightarrow> error + string" where
  "normalizeCSSValue hsl value0 =
     (if value0 = [] then Inr []
      else
        (let v1 = toLowerCase (trim value0);
             v2 = (if isHexColor v1 then hexToRgb v1 else v1);
             v3 = (case hslMatch v2 of Some (h, s, l) \<Rightarrow> hsl h s l | None \<Rightarrow> v2)
         in case map_of namedColors v3 of
              Some colour \<Rightarrow> Inr (stripWhiteSpace colour)
            | None \<Rightarrow>
                if v3 \<in> set objectPrototypeKeys then Inl TypeError
                else Inr (stripWhiteSpace v3)))"

section \<open>The host: the tree and the resolved styles\<close>

text \<open>
  The tree that the host holds, by its shape. A node is its path from the top, nearest
  step first: \<open>i # p\<close> is child \<open>i\<close> of \<open>p\<close>, and \<open>[]\<close> is the top (the document, or the
  root element of a detached tree), so two nodes are the same node exactly when they are
  equal. The host's selector engine and its resolved styles are parameters:
  \<open>selectorMatches env sel scope e\<close> says whether \<open>e\<close> matches \<open>sel\<close> with \<open>scope\<close> as
  the scoping root, \<open>styleOf env e key\<close> is \<^verbatim>\<open>getComputedStyle(e)[key]\<close>,
  \<open>propertyValue env e name\<close> is \<^verbatim>\<open>getComputedStyle(e).getPropertyValue(name)\<close>, always a
  string.

  What the style object holds under a key is \<^verbatim>\<open>undefined\<close>, a string, or another value
  (the number under \<^verbatim>\<open>length\<close>, the functions \<^verbatim>\<open>item\<close> and \<^verbatim>\<open>getPropertyValue\<close>, what
  \<^verbatim>\<open>Object.prototype\<close> gives under \<^verbatim>\<open>constructor\<close>, \<^verbatim>\<open>null\<close> under \<^verbatim>\<open>parentRule\<close>). Of
  a value that is not a string the source only tests whether it is truthy, and calls
  \<^verbatim>\<open>trim\<close> on it, which it does not have.
\<close>

datatype jsValue = Undefined | Text string | Other bool

definition truthy :: "jsValue \<Rightarrow> bool" where
  "truthy v = (case v of Undefined \<Rightarrow> False | Text s \<Rightarrow> s \<noteq> [] | Other b \<Rightarrow> b)"

datatype dom = Element "dom list"

type_synonym node = "nat list"

record env =
  document :: dom
  selectorValid :: "string \<Rightarrow> bool"
  selectorMatches :: "string \<Rightarrow> node \<Rightarrow> node \<Rightarrow> bool"
  styleOf :: "node \<Rightarrow> string \<Rightarrow> jsValue"
  propertyValue :: "node \<Rightarrow> string \<Rightarrow> string"
  hslToRgb :: "string \<Rightarrow> string \<Rightarrow> string \<Rightarrow> string"

fun subtreeAt :: "dom \<Rightarrow> nat list \<Rightarrow> dom option" where
  "subtreeAt t [] = Some t"
| "subtreeAt (Element ks) (i # path) = (if i < length ks then subtreeAt (ks ! i) path else None)"

definition nodeTree :: "env \<Rightarrow> node \<Rightarrow> dom option" where
  "nodeTree env n = subtreeAt (document env) (rev n)"

text \<open>The nodes strictly below a node, in document order.\<close>

fun descendants :: "dom \<Rightarrow> node \<Rightarrow> node list"
  and descendantsFrom :: "dom list \<Rightarrow> node \<Rightarrow> nat \<Rightarrow> node list" where
  "descendants (Element ks) n = descendantsFrom ks n 0"
| "descendantsFrom [] n i = []"
| "descendantsFrom (k # ks) n i = (i # n) # descendants k (i # n) @ descendantsFrom ks n (Suc i)"

definition descendantsOf :: "env \<Rightarrow> node \<Rightarrow> node list" where
  "descendantsOf env n = (case nodeTree env n of None \<Rightarrow> [] | Some t \<Rightarrow> descendants t n)"

text \<open>The universal selector is valid and matches every element.\<close>

definition validSelector :: "env \<Rightarrow> string \<Rightarrow> bool" where
  "validSelector env sel \<longleftrightarrow> sel = ''*'' \<or> selectorValid env sel"

definition selects :: "env \<Rightarrow> string \<Rightarrow> node \<Rightarrow> node \<Rightarrow> bool" where
  "selects env sel scope e \<longleftrightarrow> sel = ''*'' \<or> selectorMatches env sel scope e"

definition querySelectorAll :: "env \<Rightarrow> node \<Rightarrow> string \<Rightarrow> error + node list" where
  "querySelectorAll env n sel =
     (if validSelector env sel then Inr (filter (selects env sel n) (descendantsOf env n))
      else Inl SyntaxError)"

definition matches :: "env \<Rightarrow> node \<Rightarrow> string \<Rightarrow> error + bool" where
  "matches env e sel = (if validSelector env sel then Inr (selects env sel e e) else Inl SyntaxError)"

definition children :: "env \<Rightarrow> node \<Rightarrow> node list" where
  "children env n =
     (case nodeTree env n of None \<Rightarrow> [] | Some (Element ks) \<Rightarrow> map (\<lambda>i. i # n) [0..<length ks])"

section \<open>Rule matching\<close>

text \<open>\<^verbatim>\<open>computedStyle[normalizedProperty] || computedStyle.getPropertyValue(property)\<close>\<close>

definition actualValue :: "env \<Rightarrow> node \<Rightarrow> string \<Rightarrow> jsValue" where
  "actualValue env el property =
     (let exact = styleOf env el (normalizePropertyName property)
      in if truthy exact then exact else Text (propertyValue env el property))"

text \<open>
  \<^verbatim>\<open>normalizeCSSValue\<close> on a value that need not be a string: a falsy value gives the empty
  string at \<^verbatim>\<open>if (!value) return ''\<close>, and a truthy value that is not a string has no
  \<^verbatim>\<open>trim\<close>.
\<close>

definition normalizeValue :: "(string \<Rightarrow> string \<Rightarrow> string \<Rightarrow> string) \<Rightarrow> jsValue \<Rightarrow> error + string" where
  "normalizeValue hsl v =
     (if \<not> truthy v then Inr []
      else (case v of Text s \<Rightarrow> normalizeCSSValue hsl s | _ \<Rightarrow> Inl TypeError))"

fun matchEntries :: "env \<Rightarrow> node \<Rightarrow> (string \<times> string) list \<Rightarrow> error + bool" where
  "matchEntries env el [] = Inr True"
| "matchEntries env el ((property, expectedValue) # rest) =
     (case normalizeCSSValue (hslToRgb env) expectedValue of
        Inl e \<Rightarrow> Inl e
      | Inr normalizedExpected \<Rightarrow>
          (case normalizeValue (hslToRgb env) (actualValue env el property) of
             Inl e \<Rightarrow> Inl e
           | Inr normalizedActual \<Rightarrow>
               if normalizedExpected \<noteq> normalizedActual then Inr False
               else matchEntries env el rest))"

definition elementMatchesRules :: "env \<Rightarrow> node \<Rightarrow> rules \<Rightarrow> error + bool" where
  "elementMatchesRules env el rules = matchEntries env el (entries rules)"

section \<open>The evaluator\<close>

text \<open>
  The loops that push to \<^verbatim>\<open>nextResults\<close>, as functions that return what they push. An
  exception ends the whole call, so the first one in the order of evaluation is the
  result.
\<close>

fun filterE :: "('a \<Rightarrow> error + bool) \<Rightarrow> 'a list \<Rightarrow> error + 'a list" where
  "filterE f [] = Inr []"
| "filterE f (x # xs) =
     (case f x of
        Inl e \<Rightarrow> Inl e
      | Inr b \<Rightarrow> (case filterE f xs of
                    Inl e \<Rightarrow> Inl e
                  | Inr ys \<Rightarrow> Inr (if b then x # ys else ys)))"

fun concatMapE :: "('a \<Rightarrow> error + 'b list) \<Rightarrow> 'a list \<Rightarrow> error + 'b list" where
  "concatMapE f [] = Inr []"
| "concatMapE f (x # xs) =
     (case f x of
        Inl e \<Rightarrow> Inl e
      | Inr ys \<Rightarrow> (case concatMapE f xs of
                     Inl e \<Rightarrow> Inl e
                   | Inr zs \<Rightarrow> Inr (ys @ zs)))"

text \<open>The inner loop of lines 340 to 345: the first earlier selector that matches ends it.\<close>

fun anyMatches :: "env \<Rightarrow> node \<Rightarrow> string list \<Rightarrow> error + bool" where
  "anyMatches env ancestor [] = Inr False"
| "anyMatches env ancestor (prevSelector # rest) =
     (case matches env ancestor prevSelector of
        Inl e \<Rightarrow> Inl e
      | Inr b \<Rightarrow> if b then Inr True else anyMatches env ancestor rest)"

text \<open>
  The loop \<^verbatim>\<open>while (ancestor && ancestor !== element)\<close> from the ancestor it is given;
  \<^verbatim>\<open>parentElement\<close> of \<open>i # p\<close> is \<open>p\<close>, and of the top it is \<^verbatim>\<open>null\<close>. (Where the top is
  a document, the \<^verbatim>\<open>parentElement\<close> of its child is \<^verbatim>\<open>null\<close> as well; the walk starts
  below \<open>element\<close>, so it reaches the top only when \<open>element\<close> is the top, and ends
  there in both readings.)
\<close>

fun ancestorWalk :: "env \<Rightarrow> string list \<Rightarrow> node \<Rightarrow> node \<Rightarrow> error + bool" where
  "ancestorWalk env prevs element [] =
     (if [] = element then Inr False else anyMatches env [] prevs)"
| "ancestorWalk env prevs element (i # p) =
     (if i # p = element then Inr False
      else (case anyMatches env (i # p) prevs of
              Inl e \<Rightarrow> Inl e
            | Inr b \<Rightarrow> if b then Inr True else ancestorWalk env prevs element p))"

text \<open>\<^verbatim>\<open>shouldExclude\<close> for one match (lines 336 to 349).\<close>

definition shouldExclude :: "env \<Rightarrow> string list \<Rightarrow> node \<Rightarrow> node \<Rightarrow> error + bool" where
  "shouldExclude env previousFilterSelectors element match =
     (if length previousFilterSelectors > 0 then
        (case match of
           [] \<Rightarrow> Inr False
         | i # parent \<Rightarrow> ancestorWalk env previousFilterSelectors element parent)
      else Inr False)"

text \<open>\<^verbatim>\<open>!shouldExclude && elementMatchesRules(match, rules)\<close>\<close>

definition keepMatch :: "env \<Rightarrow> string list \<Rightarrow> rules \<Rightarrow> node \<Rightarrow> node \<Rightarrow> error + bool" where
  "keepMatch env previousFilterSelectors rules element match =
     (case shouldExclude env previousFilterSelectors element match of
        Inl e \<Rightarrow> Inl e
      | Inr b \<Rightarrow> if b then Inr False else elementMatchesRules env match rules)"

definition filterMode :: "env \<Rightarrow> string list \<Rightarrow> string \<Rightarrow> rules \<Rightarrow> node \<Rightarrow> error + node list" where
  "filterMode env previousFilterSelectors sel rules element =
     (case querySelectorAll env element (if sel \<noteq> [] then sel else ''*'') of
        Inl e \<Rightarrow> Inl e
      | Inr allMatches \<Rightarrow> filterE (keepMatch env previousFilterSelectors rules element) allMatches)"

definition matchingDescendants :: "env \<Rightarrow> rules \<Rightarrow> node \<Rightarrow> error + node list" where
  "matchingDescendants env rules searchRoot =
     (case querySelectorAll env searchRoot ''*'' of
        Inl e \<Rightarrow> Inl e
      | Inr allDescendants \<Rightarrow> filterE (\<lambda>d. elementMatchesRules env d rules) allDescendants)"

definition descendantMode :: "env \<Rightarrow> string \<Rightarrow> rules \<Rightarrow> node \<Rightarrow> error + node list" where
  "descendantMode env sel rules element =
     (if sel \<noteq> [] then
        (case querySelectorAll env element sel of
           Inl e \<Rightarrow> Inl e
         | Inr ms \<Rightarrow> concatMapE (matchingDescendants env rules) ms)
      else matchingDescendants env rules element)"

definition childMode :: "env \<Rightarrow> string \<Rightarrow> rules \<Rightarrow> node \<Rightarrow> error + node list" where
  "childMode env sel rules element =
     (case (if sel \<noteq> [] then querySelectorAll env element sel else Inr [element]) of
        Inl e \<Rightarrow> Inl e
      | Inr searchRoots \<Rightarrow>
          concatMapE (\<lambda>searchRoot. filterE (\<lambda>c. elementMatchesRules env c rules)
                                    (children env searchRoot)) searchRoots)"

text \<open>
  One round of the loop over the parts, on the pair of \<^verbatim>\<open>currentElements\<close> and
  \<^verbatim>\<open>previousFilterSelectors\<close>.
\<close>

fun evalPart :: "env \<Rightarrow> part \<Rightarrow> node list \<times> string list \<Rightarrow> error + (node list \<times> string list)" where
  "evalPart env (Selector sel) (currentElements, prevs) =
     (case concatMapE (\<lambda>element. querySelectorAll env element sel) currentElements of
        Inl e \<Rightarrow> Inl e
      | Inr nextResults \<Rightarrow> Inr (nextResults, prevs))"
| "evalPart env (SelectorWithRules sel Filter rulesText) (currentElements, prevs) =
     (case concatMapE (filterMode env prevs sel (parseCSSRules rulesText)) currentElements of
        Inl e \<Rightarrow> Inl e
      | Inr nextResults \<Rightarrow> Inr (nextResults, if sel \<noteq> [] then prevs @ [sel] else prevs))"
| "evalPart env (SelectorWithRules sel Descendant rulesText) (currentElements, prevs) =
     (case concatMapE (descendantMode env sel (parseCSSRules rulesText)) currentElements of
        Inl e \<Rightarrow> Inl e
      | Inr nextResults \<Rightarrow> Inr (nextResults, prevs))"
| "evalPart env (SelectorWithRules sel Child rulesText) (currentElements, prevs) =
     (case concatMapE (childMode env sel (parseCSSRules rulesText)) currentElements of
        Inl e \<Rightarrow> Inl e
      | Inr nextResults \<Rightarrow> Inr (nextResults, prevs))"

fun evalParts :: "env \<Rightarrow> part list \<Rightarrow> node list \<times> string list \<Rightarrow> error + (node list \<times> string list)" where
  "evalParts env [] st = Inr st"
| "evalParts env (p # ps) st =
     (case evalPart env p st of Inl e \<Rightarrow> Inl e | Inr st' \<Rightarrow> evalParts env ps st')"

text \<open>\<^verbatim>\<open>[...new Set(xs)]\<close>: a set keeps its elements in the order of their first insertion.\<close>

definition setAdd :: "node list \<Rightarrow> node \<Rightarrow> node list" where
  "setAdd s x = (if x \<in> set s then s else s @ [x])"

definition newSet :: "node list \<Rightarrow> node list" where
  "newSet xs = foldl setAdd [] xs"

datatype result = Null | Found node | FoundAll "node list"

definition executeQuery :: "env \<Rightarrow> string \<Rightarrow> node \<Rightarrow> bool \<Rightarrow> error + result" where
  "executeQuery env query root findAll =
     (case parseQuery query of
        Inl e \<Rightarrow> Inl e
      | Inr ps \<Rightarrow>
          (case evalParts env ps ([root], []) of
             Inl e \<Rightarrow> Inl e
           | Inr (currentElements, prevs) \<Rightarrow>
               (let uniqueResults = newSet currentElements in
                if findAll then Inr (FoundAll uniqueResults)
                else Inr (case uniqueResults of [] \<Rightarrow> Null | x # _ \<Rightarrow> Found x))))"

definition querySelectorWithCssRules :: "env \<Rightarrow> string \<Rightarrow> node \<Rightarrow> error + result" where
  "querySelectorWithCssRules env query root = executeQuery env query root False"

definition querySelectorAllWithCssRules :: "env \<Rightarrow> string \<Rightarrow> node \<Rightarrow> error + result" where
  "querySelectorAllWithCssRules env query root = executeQuery env query root True"

section \<open>Notions that the properties are stated with\<close>

text \<open>
  The relationship and the selector of a rule block as functions of the text \<open>t\<close>
  accumulated before its opening brace: first by the number of white-space characters at
  the end of \<open>t\<close> (all of \<^const>\<open>isWhiteSpace\<close>), then by the number of space
  characters (U+0020) alone.
\<close>

definition relationshipOf :: "string \<Rightarrow> relationship" where
  "relationshipOf t =
     (if endsWithChar (trim t) (CHR 0x3E) then Child
      else if length (takeWhile isWhiteSpace (rev t)) = 1 then Descendant
      else Filter)"

definition relationshipBySpaces :: "string \<Rightarrow> relationship" where
  "relationshipBySpaces t =
     (if endsWithChar (trim t) (CHR 0x3E) then Child
      else if length (takeWhile (\<lambda>c. c = CHR 0x20) (rev t)) = 1 then Descendant
      else Filter)"

definition selectorOf :: "string \<Rightarrow> string" where
  "selectorOf t =
     (if endsWithChar (trim t) (CHR 0x3E) then trim (butlast (trim t)) else trim t)"

text \<open>
  Whether the text \<open>body\<close>, read inside a rule block at brace depth \<open>d\<close>, closes that
  block.
\<close>

fun closes :: "int \<Rightarrow> string \<Rightarrow> bool" where
  "closes d [] = False"
| "closes d (c # cs) =
     (if c = CHR 0x7B then closes (d + 1) cs
      else if c = CHR 0x7D then (d - 1 = 0 \<or> closes (d - 1) cs)
      else closes d cs)"

text \<open>What a call returned, with nothing for a call that threw.\<close>

definition results :: "error + 'a list \<Rightarrow> 'a list" where
  "results r = (case r of Inl e \<Rightarrow> [] | Inr xs \<Rightarrow> xs)"

text \<open>A node satisfies the rules of a block when rule matching returns true on it.\<close>

definition satisfies :: "env \<Rightarrow> string \<Rightarrow> node \<Rightarrow> bool" where
  "satisfies env rulesText el \<longleftrightarrow> elementMatchesRules env el (parseCSSRules rulesText) = Inr True"

text \<open>
  A pair of a rule mapping matches a node when both normalizations return and return the
  same string; it mismatches when both return and the strings differ.
\<close>

definition pairMatches :: "env \<Rightarrow> node \<Rightarrow> string \<Rightarrow> string \<Rightarrow> bool" where
  "pairMatches env el property expectedValue \<longleftrightarrow>
     (case normalizeCSSValue (hslToRgb env) expectedValue of
        Inl e \<Rightarrow> False
      | Inr normalizedExpected \<Rightarrow>
          (case normalizeValue (hslToRgb env) (actualValue env el property) of
             Inl e \<Rightarrow> False
           | Inr normalizedActual \<Rightarrow> normalizedExpected = normalizedActual))"

definition pairMismatches :: "env \<Rightarrow> node \<Rightarrow> string \<Rightarrow> string \<Rightarrow> bool" where
  "pairMismatches env el property expectedValue \<longleftrightarrow>
     (case normalizeCSSValue (hslToRgb env) expectedValue of
        Inl e \<Rightarrow> False
      | Inr normalizedExpected \<Rightarrow>
          (case normalizeValue (hslToRgb env) (actualValue env el property) of
             Inl e \<Rightarrow> False
           | Inr normalizedActual \<Rightarrow> normalizedExpected \<noteq> normalizedActual))"

text \<open>
  A candidate \<open>m\<close> under \<open>N\<close> is excluded by the earlier selectors \<open>prevs\<close> when one of
  its strict ancestors, strictly below \<open>N\<close>, matches one of them. An ancestor of a node
  is a suffix of its path.
\<close>

definition excludedBy :: "env \<Rightarrow> string list \<Rightarrow> node \<Rightarrow> node \<Rightarrow> bool" where
  "excludedBy env prevs N m \<longleftrightarrow>
     (\<exists>a \<in> set (suffixes m). a \<noteq> m \<and> strict_suffix N a \<and> (\<exists>p \<in> set prevs. selects env p a a))"

text \<open>The non-empty selectors of the Filter segments of a list of parts, in order.\<close>

fun recordedSelectors :: "part list \<Rightarrow> string list" where
  "recordedSelectors [] = []"
| "recordedSelectors (SelectorWithRules sel Filter rulesText # ps) =
     (if sel \<noteq> [] then sel # recordedSelectors ps else recordedSelectors ps)"
| "recordedSelectors (p # ps) = recordedSelectors ps"

text \<open>The candidates of a Filter segment, and the search roots of a Child segment, under \<open>N\<close>.\<close>

definition candidates :: "env \<Rightarrow> string \<Rightarrow> node \<Rightarrow> node list" where
  "candidates env sel N = results (querySelectorAll env N (if sel \<noteq> [] then sel else ''*''))"

definition searchRoots :: "env \<Rightarrow> string \<Rightarrow> node \<Rightarrow> node list" where
  "searchRoots env sel N = (if sel \<noteq> [] then results (querySelectorAll env N sel) else [N])"

text \<open>A sequence without its repetitions, each element where it first occurs.\<close>

fun firstOccurrences :: "'a list \<Rightarrow> 'a list" where
  "firstOccurrences [] = []"
| "firstOccurrences (x # xs) = x # firstOccurrences (removeAll x xs)"

text \<open>
  The clause \<^verbatim>\<open>property: value\<close> that a trimmed line of a rule block stands for, if any,
  and the clauses of a block in the order of the text.
\<close>

definition clauseOf :: "string \<Rightarrow> (string \<times> string) option" where
  "clauseOf line =
     (if CHR '':'' \<notin> set line then None
      else
        (let property = trim (takeWhile (\<lambda>c. c \<noteq> CHR '':'') line);
             value = trim (drop 1 (dropWhile (\<lambda>c. c \<noteq> CHR '':'') line))
         in if property \<noteq> [] \<and> value \<noteq> [] then Some (property, value) else None))"

definition clauses :: "string \<Rightarrow> (string \<times> string) list" where
  "clauses rulesText = List.map_filter clauseOf (ruleLines rulesText)"

text \<open>No property is given two different values.\<close>

definition singleValued :: "(string \<times> string) list \<Rightarrow> bool" where
  "singleValued kvs \<longleftrightarrow> (\<forall>kv \<in> set kvs. \<forall>kv' \<in> set kvs. fst kv = fst kv' \<longrightarrow> snd kv = snd kv')"

text \<open>
  The state of the scanner between two blocks, by the parts that it has pushed.
\<close>

definition outsideState :: "part list \<Rightarrow> pstate" where
  "outsideState ps = \<lparr> parts = ps, currentSelector = [], inRules = False, currentRules = [],
     braceDepth = 0, inQuotes = False, quoteChar = [] \<rparr>"

text \<open>
  A selector text: a text that opens no rule block and ends outside quotes. It has no
  \<^verbatim>\<open>{\<close> but inside quotes; \<open>q\<close> is the quote that is open (or empty), and a quote
  closes at the same character not preceded by a backslash.
\<close>

fun selectorTextFrom :: "string \<Rightarrow> char option \<Rightarrow> string \<Rightarrow> bool" where
  "selectorTextFrom q prev [] = (q = [])"
| "selectorTextFrom q prev (c # cs) =
     (if c = CHR 0x22 \<or> c = CHR 0x27 then
        (if q = [] then selectorTextFrom [c] (Some c) cs
         else if [c] = q \<and> prev \<noteq> Some (CHR 0x5C) then selectorTextFrom [] (Some c) cs
         else selectorTextFrom q (Some c) cs)
      else if c = CHR 0x7B \<and> q = [] then False
      else selectorTextFrom q (Some c) cs)"

definition selectorText :: "string \<Rightarrow> bool" where
  "selectorText t = selectorTextFrom [] None t"

text \<open>
  The body of a complete block: a text whose braces are balanced, so that the block that
  \<^verbatim>\<open>{\<close> opens before it is still open at its end, at depth 1, and the \<^verbatim>\<open>}\<close> after it
  closes the block. \<open>depthAfter d b\<close> is the depth after \<open>b\<close> read at depth \<open>d\<close>, if the
  block does not close inside \<open>b\<close>.
\<close>

fun depthAfter :: "int \<Rightarrow> string \<Rightarrow> int option" where
  "depthAfter d [] = Some d"
| "depthAfter d (c # cs) =
     (if c = CHR 0x7B then depthAfter (d + 1) cs
      else if c = CHR 0x7D then (if d - 1 = 0 then None else depthAfter (d - 1) cs)
      else depthAfter d cs)"

definition blockBody :: "string \<Rightarrow> bool" where
  "blockBody b \<longleftrightarrow> depthAfter 1 b = Some 1"

text \<open>The text of a query made of complete rule blocks, each after its selector text.\<close>

definition blocksText :: "(string \<times> string) list \<Rightarrow> string" where
  "blocksText segs = concat (map (\<lambda>tb. fst tb @ [CHR 0x7B] @ snd tb @ [CHR 0x7D]) segs)"

text \<open>
  A property name in kebab case, as the words between its hyphens, and the same name in
  camel case: the words after the first begin with a small letter, which is made a
  capital.
\<close>

definition kebab :: "string \<Rightarrow> string list \<Rightarrow> string" where
  "kebab w ws = w @ concat (map (\<lambda>x. CHR ''-'' # x) ws)"

definition capitalize :: "string \<Rightarrow> string" where
  "capitalize x = (case x of [] \<Rightarrow> [] | c # cs \<Rightarrow> char_of (of_char c - (32 :: nat)) # cs)"

definition camel :: "string \<Rightarrow> string list \<Rightarrow> string" where
  "camel w ws = w @ concat (map capitalize ws)"

definition kebabWords :: "string \<Rightarrow> string list \<Rightarrow> bool" where
  "kebabWords w ws \<longleftrightarrow>
     CHR ''-'' \<notin> set w \<and> list_all (\<lambda>x. CHR ''-'' \<notin> set x \<and> x \<noteq> [] \<and> isLowerAZ (hd x)) ws"

text \<open>No normalization that rule matching can reach for the pairs \<open>kvs\<close> on the node throws.\<close>

definition noThrow :: "env \<Rightarrow> node \<Rightarrow> (string \<times> string) list \<Rightarrow> bool" where
  "noThrow env el kvs \<longleftrightarrow>
     list_all (\<lambda>kv. (case normalizeCSSValue (hslToRgb env) (snd kv) of
                       Inl e \<Rightarrow> False
                     | Inr a \<Rightarrow> (case normalizeValue (hslToRgb env) (actualValue env el (fst kv)) of
                                  Inl e \<Rightarrow> False | Inr b \<Rightarrow> True))) kvs"

text \<open>
  An example host. The tree is
  \<^verbatim>\<open><div class=item style="display:flex"> <span class=label> <b class=label/> </span> <div class=item> <span class=label/> </div> </div> <div class=item> <span class=label/> </div>\<close>
  under the top; every label is white on a transparent background, everything else is
  black on blue; only the first item is a flex box; the custom property \<^verbatim>\<open>--accent\<close> is
  red everywhere. The style object holds the three properties under their camel-cased
  keys and a number under \<^verbatim>\<open>length\<close>. The selectors that the host knows are \<^verbatim>\<open>.item\<close>
  and \<^verbatim>\<open>.label\<close>.
\<close>

definition exampleItems :: "node list" where
  "exampleItems = [[0], [1, 0], [1]]"

definition exampleLabels :: "node list" where
  "exampleLabels = [[0, 0], [0, 0, 0], [0, 1, 0], [0, 1]]"

definition exampleStyle :: "node \<Rightarrow> string \<Rightarrow> string" where
  "exampleStyle e name =
     (if name = ''display'' then
        (if e = [0] then ''flex'' else if e \<in> set exampleLabels then ''inline'' else ''block'')
      else if name = ''color'' then
        (if e \<in> set exampleLabels then ''rgb(255, 255, 255)'' else ''rgb(0, 0, 0)'')
      else if name = ''background-color'' then
        (if e \<in> set exampleLabels then ''rgba(0, 0, 0, 0)'' else ''rgb(0, 0, 255)'')
      else if name = ''--accent'' then ''red''
      else [])"

definition exampleEnv :: env where
  "exampleEnv =
     \<lparr> document = Element [Element [Element [Element []], Element [Element []]],
                           Element [Element []]],
       selectorValid = (\<lambda>sel. sel = ''.item'' \<or> sel = ''.label''),
       selectorMatches = (\<lambda>sel scope e. (sel = ''.item'' \<and> e \<in> set exampleItems)
                                        \<or> (sel = ''.label'' \<and> e \<in> set exampleLabels)),
       styleOf = (\<lambda>e key. if key = ''display'' \<or> key = ''color'' then Text (exampleStyle e key)
                            else if key = ''backgroundColor''
                            then Text (exampleStyle e ''background-color'')
                            else if key = ''length'' then Other True
                            else Undefined),
       propertyValue = exampleStyle,
       hslToRgb = (\<lambda>h s l. ''rgb(0,0,0)'') \<rparr>"

section \<open>Properties of the parser\<close>

lemma trailing_count: "int (length cs) - int (length (trimEnd cs)) = int (length (takeWhile isWhiteSpace (rev cs)))"
proof -
  have "length (takeWhile isWhiteSpace (rev cs)) + length (dropWhile isWhiteSpace (rev cs)) = length (rev cs)"
    by (metis length_append takeWhile_dropWhile_id)
  then show ?thesis by (simp add: trimEnd_def)
qed

lemma openPart_eq: "openPart t = SelectorWithRules (selectorOf t) (relationshipOf t) []"
  by (simp add: openPart_def selectorOf_def relationshipOf_def Let_def trailing_count)

lemma scan_append:
  "scan s prev (xs @ ys) =
     (case scan s prev xs of Inl e \<Rightarrow> Inl e
      | Inr s' \<Rightarrow> scan s' (if xs = [] then prev else Some (last xs)) ys)"
  by (induction xs arbitrary: s prev) (auto split: sum.splits)

lemma step_total:
  assumes "inRules s \<longrightarrow> parts s \<noteq> []"
  shows "\<exists>s'. step prev ch s = Inr s' \<and> (inRules s' \<longrightarrow> parts s' \<noteq> [])"
  using assms by (auto simp: step_def setLastRules_def Let_def split: part.splits)

lemma scan_total:
  "inRules s \<longrightarrow> parts s \<noteq> [] \<Longrightarrow> \<exists>s'. scan s prev xs = Inr s' \<and> (inRules s' \<longrightarrow> parts s' \<noteq> [])"
proof (induction xs arbitrary: s prev)
  case Nil
  then show ?case by simp
next
  case (Cons c cs)
  from step_total[OF Cons.prems] obtain s1 where
    s1: "step prev c s = Inr s1" "inRules s1 \<longrightarrow> parts s1 \<noteq> []" by blast
  from Cons.IH[OF s1(2)] s1(1) show ?case by simp
qed

lemma step_parts:
  assumes "step prev ch s = Inr s1"
  shows "(\<not> inRules s \<and> \<not> inRules s1 \<and> parts s1 = parts s)
       \<or> (\<not> inRules s \<and> inRules s1 \<and> parts s1 = parts s @ [openPart (currentSelector s)])
       \<or> (inRules s \<and> inRules s1 \<and> parts s1 = parts s)
       \<or> (inRules s \<and> \<not> inRules s1 \<and> setLastRules (parts s) (trim (currentRules s)) = Inr (parts s1))"
  using assms by (auto simp: step_def Let_def split: if_splits sum.splits)

lemma setLastRules_shape:
  assumes "setLastRules (ps @ [SelectorWithRules sel rel r0]) r = Inr qs"
  shows "qs = ps @ [SelectorWithRules sel rel r]"
  using assms by (simp add: setLastRules_def)

lemma scan_parts:
  "scan s prev xs = Inr s' \<Longrightarrow>
     (\<not> inRules s \<longrightarrow> (\<exists>tl. parts s' = parts s @ tl)) \<and>
     (\<forall>ps sel rel r0. inRules s \<and> parts s = ps @ [SelectorWithRules sel rel r0] \<longrightarrow>
         (\<exists>r tl. parts s' = ps @ SelectorWithRules sel rel r # tl))"
proof (induction xs arbitrary: s prev)
  case Nil
  then show ?case by auto
next
  case (Cons c cs)
  from Cons.prems obtain s1 where s1: "step prev c s = Inr s1" and rest: "scan s1 (Some c) cs = Inr s'"
    by (auto split: sum.splits)
  note IH = Cons.IH[OF rest]
  from step_parts[OF s1] show ?case
  proof (elim disjE conjE)
    assume "\<not> inRules s" "\<not> inRules s1" "parts s1 = parts s"
    with IH show ?thesis by auto
  next
    assume a: "\<not> inRules s" "inRules s1" "parts s1 = parts s @ [openPart (currentSelector s)]"
    with IH openPart_eq[of "currentSelector s"] show ?thesis by fastforce
  next
    assume "inRules s" "inRules s1" "parts s1 = parts s"
    with IH show ?thesis by auto
  next
    assume a: "inRules s" "\<not> inRules s1" "setLastRules (parts s) (trim (currentRules s)) = Inr (parts s1)"
    show ?thesis
    proof (intro conjI allI impI)
      assume "\<not> inRules s" with a show "\<exists>tl. parts s' = parts s @ tl" by simp
    next
      fix ps sel rel r0
      assume b: "inRules s \<and> parts s = ps @ [SelectorWithRules sel rel r0]"
      with a setLastRules_shape have "parts s1 = ps @ [SelectorWithRules sel rel (trim (currentRules s))]"
        by metis
      moreover from IH a obtain tl where "parts s' = parts s1 @ tl" by auto
      ultimately show "\<exists>r tl. parts s' = ps @ SelectorWithRules sel rel r # tl" by simp
    qed
  qed
qed

lemma scan_accumulators:
  assumes "scan s prev xs = Inr s'"
      and "inRules s \<longrightarrow> currentSelector s = []" and "\<not> inRules s \<longrightarrow> currentRules s = []"
  shows "(inRules s' \<longrightarrow> currentSelector s' = []) \<and> (\<not> inRules s' \<longrightarrow> currentRules s' = [])
       \<and> suffix (currentSelector s') (currentSelector s @ xs)"
  using assms
proof (induction xs arbitrary: s prev)
  case Nil
  then show ?case by simp
next
  case (Cons c cs)
  from Cons.prems(1) obtain s1 where s1: "step prev c s = Inr s1" and rest: "scan s1 (Some c) cs = Inr s'"
    by (auto split: sum.splits)
  from s1 Cons.prems(2,3) have j: "inRules s1 \<longrightarrow> currentSelector s1 = []"
    and j': "\<not> inRules s1 \<longrightarrow> currentRules s1 = []"
    and k: "suffix (currentSelector s1) (currentSelector s @ [c])"
    by (auto simp: step_def Let_def split: if_splits sum.splits)
  from Cons.IH[OF rest j j'] have l: "inRules s' \<longrightarrow> currentSelector s' = []"
    and l': "\<not> inRules s' \<longrightarrow> currentRules s' = []"
    and m: "suffix (currentSelector s') (currentSelector s1 @ cs)" by simp_all
  from k obtain zs where zs: "currentSelector s @ [c] = zs @ currentSelector s1"
    by (auto simp: suffix_def)
  from m obtain ws where ws: "currentSelector s1 @ cs = ws @ currentSelector s'"
    by (auto simp: suffix_def)
  have "currentSelector s @ c # cs = (currentSelector s @ [c]) @ cs" by simp
  also have "\<dots> = zs @ (currentSelector s1 @ cs)" by (simp add: zs)
  also have "\<dots> = (zs @ ws) @ currentSelector s'" by (simp add: ws)
  finally have "suffix (currentSelector s') (currentSelector s @ c # cs)"
    unfolding suffix_def by blast
  with l l' show ?case by simp
qed

lemma scan_initial:
  assumes "scan initialState None pre = Inr s"
  shows "(\<not> inRules s \<longrightarrow> currentRules s = []) \<and> suffix (currentSelector s) pre"
  using scan_accumulators[OF assms] by (simp add: initialState_def)

lemma step_unterminated:
  assumes "inRules s" "\<not> closes (braceDepth s) (c # cs)"
  shows "\<exists>s1. step prev c s = Inr s1 \<and> inRules s1 \<and> parts s1 = parts s \<and>
            currentSelector s1 = currentSelector s \<and> \<not> closes (braceDepth s1) cs"
  using assms by (auto simp: step_def Let_def split: if_splits)

lemma scan_unterminated:
  "inRules s \<Longrightarrow> \<not> closes (braceDepth s) body \<Longrightarrow>
     \<exists>s'. scan s prev body = Inr s' \<and> inRules s' \<and> parts s' = parts s \<and> currentSelector s' = currentSelector s"
proof (induction body arbitrary: s prev)
  case Nil
  then show ?case by simp
next
  case (Cons c cs)
  from step_unterminated[OF Cons.prems] obtain s1 where
    s1: "step prev c s = Inr s1" "inRules s1" "parts s1 = parts s"
        "currentSelector s1 = currentSelector s" "\<not> closes (braceDepth s1) cs" by blast
  from Cons.IH[OF s1(2) s1(5)] s1 show ?case by auto
qed

lemma step_open:
  assumes "\<not> inRules s" "\<not> inQuotes s"
  shows "step prev (CHR 0x7B) s =
           Inr (s\<lparr>parts := parts s @ [openPart (currentSelector s)],
                  currentSelector := [], inRules := True, braceDepth := 1\<rparr>)"
  using assms by (simp add: step_def)

lemma trim_Nil: "trim [] = []"
  by (simp add: trim_def trimStart_def trimEnd_def)

lemma parse_open:
  assumes "scan initialState None pre = Inr s" "\<not> inRules s" "\<not> inQuotes s"
  shows "\<exists>r tl. parseQuery (pre @ CHR 0x7B # rest) =
            Inr (parts s @ SelectorWithRules (selectorOf (currentSelector s))
                             (relationshipOf (currentSelector s)) r # tl)"
proof -
  let ?s1 = "s\<lparr>parts := parts s @ [openPart (currentSelector s)],
                  currentSelector := [], inRules := True, braceDepth := 1\<rparr>"
  have "inRules ?s1 \<longrightarrow> parts ?s1 \<noteq> []" by simp
  from scan_total[OF this] obtain s' where s': "scan ?s1 (Some (CHR 0x7B)) rest = Inr s'" by blast
  have "inRules ?s1 \<and> parts ?s1 = parts s @ [SelectorWithRules (selectorOf (currentSelector s))
                             (relationshipOf (currentSelector s)) []]"
    by (simp add: openPart_eq)
  with scan_parts[OF s'] obtain r tl where
    p: "parts s' = parts s @ SelectorWithRules (selectorOf (currentSelector s))
                             (relationshipOf (currentSelector s)) r # tl" by blast
  have "scan initialState None (pre @ CHR 0x7B # rest) = Inr s'"
    using assms s' by (simp add: scan_append step_open)
  then have "parseQuery (pre @ CHR 0x7B # rest) = Inr (finish s')"
    by (simp add: parseQuery_def)
  with p show ?thesis by (auto simp: finish_def)
qed

lemma parseQuery_returns: "\<exists>ps. parseQuery q = Inr ps"
proof -
  have "inRules initialState \<longrightarrow> parts initialState \<noteq> []" by (simp add: initialState_def)
  from scan_total[OF this] obtain s' where "scan initialState None q = Inr s'" by blast
  then show ?thesis by (simp add: parseQuery_def)
qed

lemma parse_unterminated:
  assumes "scan initialState None pre = Inr s" "\<not> inRules s" "\<not> inQuotes s"
      and "\<not> closes 1 body"
  shows "parseQuery (pre @ CHR 0x7B # body) = Inr (parts s @ [openPart (currentSelector s)])"
    and "parseQuery (pre @ CHR 0x7B # body) = parseQuery (pre @ [CHR 0x7B, CHR 0x7D])"
proof -
  let ?s1 = "s\<lparr>parts := parts s @ [openPart (currentSelector s)],
                  currentSelector := [], inRules := True, braceDepth := 1\<rparr>"
  have "inRules ?s1" "\<not> closes (braceDepth ?s1) body" using assms(4) by simp_all
  from scan_unterminated[OF this] obtain s' where
    s': "scan ?s1 (Some (CHR 0x7B)) body = Inr s'" "inRules s'" "parts s' = parts ?s1"
        "currentSelector s' = currentSelector ?s1" by blast
  have "scan initialState None (pre @ CHR 0x7B # body) = Inr s'"
    using assms s' by (simp add: scan_append step_open)
  then show a: "parseQuery (pre @ CHR 0x7B # body) = Inr (parts s @ [openPart (currentSelector s)])"
    using s' by (simp add: parseQuery_def finish_def trim_Nil)
  have "scan initialState None (pre @ [CHR 0x7B, CHR 0x7D]) =
          Inr (?s1\<lparr>braceDepth := 0, parts := parts s @ [openPart (currentSelector s)],
                  currentRules := [], inRules := False\<rparr>)"
    using assms scan_initial[OF assms(1)]
    by (simp add: scan_append step_open step_def setLastRules_def openPart_eq trim_Nil)
  then have "parseQuery (pre @ [CHR 0x7B, CHR 0x7D]) = Inr (parts s @ [openPart (currentSelector s)])"
    by (simp add: parseQuery_def finish_def trim_Nil)
  with a show "parseQuery (pre @ CHR 0x7B # body) = parseQuery (pre @ [CHR 0x7B, CHR 0x7D])"
    by simp
qed

subsection \<open>C1: the relationship of a rule block\<close>

lemma scan_selectorText:
  assumes "\<not> inRules s" "inQuotes s \<longleftrightarrow> q \<noteq> []" "quoteChar s = q" "selectorTextFrom q prev t"
  shows "scan s prev t = Inr (s\<lparr>currentSelector := currentSelector s @ t, inQuotes := False, quoteChar := []\<rparr>)"
  using assms
proof (induction t arbitrary: s q prev)
  case Nil
  then show ?case by (cases s) simp
next
  case (Cons c cs)
  show ?case
  proof (cases "c = CHR 0x22 \<or> c = CHR 0x27")
    case True
    note quote = this
    show ?thesis
    proof (cases "q = []")
      case True
      let ?s1 = "s\<lparr>inQuotes := True, quoteChar := [c], currentSelector := currentSelector s @ [c]\<rparr>"
      from True quote Cons.prems have st: "step prev c s = Inr ?s1"
        by (auto simp: step_def Let_def)
      from True quote Cons.prems have "selectorTextFrom [c] (Some c) cs" by auto
      from Cons.IH[of ?s1 "[c]" "Some c", OF _ _ _ this]
      have "scan ?s1 (Some c) cs = Inr (?s1\<lparr>currentSelector := currentSelector ?s1 @ cs,
              inQuotes := False, quoteChar := []\<rparr>)"
        using Cons.prems(1) by simp
      with st show ?thesis by simp
    next
      case False
      note open_quote = this
      show ?thesis
      proof (cases "[c] = q \<and> prev \<noteq> Some (CHR 0x5C)")
        case True
        let ?s1 = "s\<lparr>inQuotes := False, quoteChar := [], currentSelector := currentSelector s @ [c]\<rparr>"
        from True open_quote quote Cons.prems have st: "step prev c s = Inr ?s1"
          by (auto simp: step_def Let_def)
        from True open_quote quote Cons.prems have "selectorTextFrom [] (Some c) cs" by auto
        from Cons.IH[of ?s1 "[]" "Some c", OF _ _ _ this]
        have "scan ?s1 (Some c) cs = Inr (?s1\<lparr>currentSelector := currentSelector ?s1 @ cs,
                inQuotes := False, quoteChar := []\<rparr>)"
          using Cons.prems(1) by simp
        with st show ?thesis by simp
      next
        case False
        let ?s1 = "s\<lparr>currentSelector := currentSelector s @ [c]\<rparr>"
        from False open_quote quote Cons.prems have st: "step prev c s = Inr ?s1"
          by (auto simp: step_def Let_def)
        from False open_quote quote Cons.prems have "selectorTextFrom q (Some c) cs" by auto
        from Cons.IH[of ?s1 q "Some c", OF _ _ _ this]
        have "scan ?s1 (Some c) cs = Inr (?s1\<lparr>currentSelector := currentSelector ?s1 @ cs,
                inQuotes := False, quoteChar := []\<rparr>)"
          using Cons.prems by simp
        with st show ?thesis by simp
      qed
    qed
  next
    case False
    note plain = this
    let ?s1 = "s\<lparr>currentSelector := currentSelector s @ [c]\<rparr>"
    from plain Cons.prems have nb: "\<not> (c = CHR 0x7B \<and> q = [])"
      by (auto split: if_splits)
    with plain Cons.prems have st: "step prev c s = Inr ?s1"
      by (auto simp: step_def Let_def)
    from plain nb Cons.prems have "selectorTextFrom q (Some c) cs" by (auto split: if_splits)
    from Cons.IH[of ?s1 q "Some c", OF _ _ _ this]
    have "scan ?s1 (Some c) cs = Inr (?s1\<lparr>currentSelector := currentSelector ?s1 @ cs,
            inQuotes := False, quoteChar := []\<rparr>)"
      using Cons.prems by simp
    with st show ?thesis by simp
  qed
qed

lemma scan_body:
  assumes "inRules s" "depthAfter (braceDepth s) b = Some d"
  shows "scan s prev b = Inr (s\<lparr>currentRules := currentRules s @ b, braceDepth := d\<rparr>)"
  using assms
proof (induction b arbitrary: s prev)
  case Nil
  then show ?case by (cases s) simp
next
  case (Cons c cs)
  show ?case
  proof (cases "c = CHR 0x7B")
    case True
    let ?s1 = "s\<lparr>braceDepth := braceDepth s + 1, currentRules := currentRules s @ [c]\<rparr>"
    from True Cons.prems have st: "step prev c s = Inr ?s1" by (simp add: step_def)
    from True Cons.prems have "depthAfter (braceDepth ?s1) cs = Some d" by simp
    from Cons.IH[of ?s1, OF _ this] Cons.prems(1) st show ?thesis by simp
  next
    case False
    note nb = this
    show ?thesis
    proof (cases "c = CHR 0x7D")
      case True
      let ?s1 = "s\<lparr>braceDepth := braceDepth s - 1, currentRules := currentRules s @ [c]\<rparr>"
      from True nb Cons.prems have ne: "braceDepth s - 1 \<noteq> 0" by (auto split: if_splits)
      with True Cons.prems have st: "step prev c s = Inr ?s1" by (simp add: step_def)
      from True ne Cons.prems have "depthAfter (braceDepth ?s1) cs = Some d" by simp
      from Cons.IH[of ?s1, OF _ this] Cons.prems(1) st show ?thesis by simp
    next
      case False
      let ?s1 = "s\<lparr>currentRules := currentRules s @ [c]\<rparr>"
      from False nb Cons.prems have st: "step prev c s = Inr ?s1" by (simp add: step_def)
      from False nb Cons.prems have "depthAfter (braceDepth ?s1) cs = Some d" by simp
      from Cons.IH[of ?s1, OF _ this] Cons.prems(1) st show ?thesis by simp
    qed
  qed
qed

lemma scan_selector_outside:
  assumes "selectorText t"
  shows "scan (outsideState ps) prev t = Inr ((outsideState ps)\<lparr>currentSelector := t\<rparr>)"
proof -
  from assms have "selectorTextFrom [] prev t"
    unfolding selectorText_def by (cases t) (auto split: if_splits)
  from scan_selectorText[of "outsideState ps" "[]" prev t, OF _ _ _ this]
  show ?thesis by (simp add: outsideState_def)
qed

lemma scan_block:
  assumes "selectorText t" "blockBody b"
  shows "scan (outsideState ps) prev (t @ [CHR 0x7B] @ b @ [CHR 0x7D]) =
           Inr (outsideState (ps @ [SelectorWithRules (selectorOf t) (relationshipOf t) (trim b)]))"
proof -
  let ?s0 = "(outsideState ps)\<lparr>currentSelector := t\<rparr>"
  let ?s1 = "?s0\<lparr>parts := ps @ [openPart t], currentSelector := [], inRules := True, braceDepth := 1\<rparr>"
  let ?s2 = "?s1\<lparr>currentRules := b, braceDepth := 1\<rparr>"
  let ?p = "if t = [] then prev else Some (last t)"
  have a: "scan (outsideState ps) prev t = Inr ?s0" by (rule scan_selector_outside[OF assms(1)])
  have b: "step ?p (CHR 0x7B) ?s0 = Inr ?s1"
    by (simp add: step_def outsideState_def)
  from assms(2) have "depthAfter (braceDepth ?s1) b = Some 1" by (simp add: blockBody_def)
  from scan_body[of ?s1 b 1 "Some (CHR 0x7B)", OF _ this]
  have c: "scan ?s1 (Some (CHR 0x7B)) b = Inr ?s2" by (simp add: outsideState_def)
  have d: "step (if b = [] then Some (CHR 0x7B) else Some (last b)) (CHR 0x7D) ?s2 =
             Inr (outsideState (ps @ [SelectorWithRules (selectorOf t) (relationshipOf t) (trim b)]))"
    by (simp add: step_def outsideState_def setLastRules_def openPart_eq)
  from a b c d show ?thesis by (simp add: scan_append)
qed

lemma scan_blocks:
  assumes "list_all (\<lambda>tb. selectorText (fst tb) \<and> blockBody (snd tb)) segs"
  shows "scan (outsideState ps) prev (blocksText segs) =
           Inr (outsideState (ps @ map (\<lambda>tb. SelectorWithRules (selectorOf (fst tb))
                                              (relationshipOf (fst tb)) (trim (snd tb))) segs))"
  using assms
proof (induction segs arbitrary: ps prev)
  case Nil
  then show ?case by (simp add: blocksText_def)
next
  case (Cons tb segs)
  from Cons.prems have 1: "selectorText (fst tb)" "blockBody (snd tb)"
    and 2: "list_all (\<lambda>tb. selectorText (fst tb) \<and> blockBody (snd tb)) segs" by simp_all
  have "blocksText (tb # segs) = (fst tb @ [CHR 0x7B] @ snd tb @ [CHR 0x7D]) @ blocksText segs"
    by (simp add: blocksText_def)
  then show ?case
    using scan_block[OF 1, of ps prev] Cons.IH[OF 2]
    by (simp only: scan_append sum.case) simp
qed

text \<open>
  C1, as the claim states it, counts the space characters before the brace. The code
  counts what \<^verbatim>\<open>trimEnd\<close> removes, which is every white-space character. A selector
  followed by a line break and one space ends with one space character, and the claim
  says Descendant, but with two white-space characters: the code says Filter. A selector
  followed by one TAB ends with no space character, and the claim says Filter: the code
  says Descendant.
\<close>

theorem relationship_counts_spaces_counterexample:
  "parseQuery (''.a'' @ [CHR 0x0A] @ '' {}'') = Inr [SelectorWithRules ''.a'' Filter []]
   \<and> relationshipBySpaces (''.a'' @ [CHR 0x0A] @ '' '') = Descendant
   \<and> parseQuery (''.a'' @ [CHR 0x09] @ ''{}'') = Inr [SelectorWithRules ''.a'' Descendant []]
   \<and> relationshipBySpaces (''.a'' @ [CHR 0x09]) = Filter"
  by code_simp

text \<open>
  C1, amended: in a query that starts with complete rule blocks, each a selector text
  followed by a body in braces, and goes on with a selector text \<open>t\<close> and an opening
  brace, the parser returns one rule segment for each of the blocks and then one for
  the brace that follows \<open>t\<close>. The relationship and the selector of every one of these
  segments are functions of the selector text right before its brace alone: Child, with
  the \<^verbatim>\<open>>\<close> taken off the selector, when the trimmed text ends with \<^verbatim>\<open>>\<close>; else
  Descendant when the text ends with exactly one white-space character; else Filter.
  Neither the earlier blocks nor what follows the brace has a part in them.
\<close>

theorem relationship_from_preceding_text:
  assumes "list_all (\<lambda>tb. selectorText (fst tb) \<and> blockBody (snd tb)) segs" "selectorText t"
  shows "\<exists>r tl. parseQuery (blocksText segs @ t @ CHR 0x7B # rest) =
            Inr (map (\<lambda>tb. SelectorWithRules (selectorOf (fst tb)) (relationshipOf (fst tb))
                                              (trim (snd tb))) segs
                 @ SelectorWithRules (selectorOf t) (relationshipOf t) r # tl)"
proof -
  let ?ps = "map (\<lambda>tb. SelectorWithRules (selectorOf (fst tb)) (relationshipOf (fst tb))
                                              (trim (snd tb))) segs"
  let ?s = "(outsideState ?ps)\<lparr>currentSelector := t\<rparr>"
  have i: "initialState = outsideState []" by (simp add: initialState_def outsideState_def)
  from scan_blocks[OF assms(1), of "[]" None]
  have a: "scan initialState None (blocksText segs) = Inr (outsideState ?ps)" by (simp add: i)
  have "scan initialState None (blocksText segs @ t) = Inr ?s"
    by (simp add: scan_append a scan_selector_outside[OF assms(2)])
  from parse_open[OF this, of rest] show ?thesis by (simp add: outsideState_def)
qed

theorem relationship_from_preceding_text_witness:
  "\<exists>r tl. parseQuery ''.a  {x:y}.b {z}'' =
      Inr ([SelectorWithRules ''.a'' Filter ''x:y''] @ SelectorWithRules ''.b'' Descendant r # tl)"
proof -
  have h: "list_all (\<lambda>tb. selectorText (fst tb) \<and> blockBody (snd tb)) [(''.a  '', ''x:y'')]"
    "selectorText ''.b ''"
    by code_simp+
  have s: "selectorOf ''.a  '' = ''.a''" "relationshipOf ''.a  '' = Filter" "trim ''x:y'' = ''x:y''"
    "selectorOf ''.b '' = ''.b''" "relationshipOf ''.b '' = Descendant"
    "blocksText [(''.a  '', ''x:y'')] = ''.a  {x:y}''"
    by code_simp+
  from relationship_from_preceding_text[OF h, of "''z}''"] show ?thesis
    unfolding list.map fst_conv snd_conv s by simp
qed

subsection \<open>C7: the parser is total, and an unterminated block\<close>

text \<open>
  C7, as the claim states it, says that an unterminated final block is dropped, as if it
  contributed nothing. The segment of the block is pushed when its brace opens and stays:
  only the text of its rules is lost. With the example host, \<^verbatim>\<open>.item {x\<close> is a
  Descendant segment with no rules and finds everything below the items, where
  \<^verbatim>\<open>.item\<close> alone finds the items.
\<close>

theorem unterminated_block_dropped_counterexample:
  "parseQuery ''.item {x'' = Inr [SelectorWithRules ''.item'' Descendant []]
   \<and> parseQuery ''.item '' = Inr [Selector ''.item'']
   \<and> executeQuery exampleEnv ''.item {x'' [] True
       = Inr (FoundAll [[0, 0], [0, 0, 0], [1, 0], [0, 1, 0], [0, 1]])
   \<and> executeQuery exampleEnv ''.item '' [] True = Inr (FoundAll [[0], [1, 0], [1]])"
  by code_simp

text \<open>
  C7, amended: the parser returns a list of parts on every query. When the text after an
  opening brace (one that follows a prefix ending outside blocks and quotes) never closes
  the block, the result is the parts before it and the block's own segment, with its
  selector and relationship and with empty rules: the same as for the query with \<^verbatim>\<open>{}\<close>
  in place of the unterminated block.
\<close>

theorem parser_total_and_lenient:
  "(\<exists>ps. parseQuery q = Inr ps) \<and>
   (scan initialState None pre = Inr s \<and> \<not> inRules s \<and> \<not> inQuotes s \<and> \<not> closes 1 body \<longrightarrow>
      parseQuery (pre @ CHR 0x7B # body) =
        Inr (parts s @ [SelectorWithRules (selectorOf (currentSelector s))
                          (relationshipOf (currentSelector s)) []])
      \<and> parseQuery (pre @ CHR 0x7B # body) = parseQuery (pre @ [CHR 0x7B, CHR 0x7D]))"
  using parseQuery_returns[of q] parse_unterminated[of pre s body]
  by (simp add: openPart_eq)

theorem parser_total_and_lenient_witness:
  "(\<exists>ps. parseQuery ''a{b{c}'' = Inr ps)
   \<and> parseQuery ''.item > {color: red; {} '' = Inr [SelectorWithRules ''.item'' Child []]
   \<and> parseQuery ''.item > {color: red; {} '' = parseQuery ''.item > {}''"
proof -
  let ?s = "\<lparr>parts = [], currentSelector = ''.item > '', inRules = False, currentRules = [],
          braceDepth = 0, inQuotes = False, quoteChar = []\<rparr>"
  have h: "scan initialState None ''.item > '' = Inr ?s" by code_simp
  have c: "\<not> closes 1 ''color: red; {} ''" by code_simp
  have s: "selectorOf ''.item > '' = ''.item''" "relationshipOf ''.item > '' = Child" by code_simp+
  have pre: "scan initialState None ''.item > '' = Inr ?s \<and> \<not> inRules ?s \<and> \<not> inQuotes ?s
             \<and> \<not> closes 1 ''color: red; {} ''"
    using h c by (simp del: scan.simps)
  note t = parser_total_and_lenient[of "''a{b{c}''" "''.item > ''" ?s "''color: red; {} ''"]
  from t have T: "\<exists>ps. parseQuery ''a{b{c}'' = Inr ps" by blast
  from t pre have A: "parseQuery (''.item > '' @ CHR 0x7B # ''color: red; {} '') =
          Inr (parts ?s @ [SelectorWithRules (selectorOf (currentSelector ?s))
                          (relationshipOf (currentSelector ?s)) []])"
    by blast
  from t pre have B: "parseQuery (''.item > '' @ CHR 0x7B # ''color: red; {} '')
            = parseQuery (''.item > '' @ [CHR 0x7B, CHR 0x7D])"
    by blast
  from A have A': "parseQuery ''.item > {color: red; {} '' = Inr [SelectorWithRules ''.item'' Child []]"
    by (simp add: s)
  from B have B': "parseQuery ''.item > {color: red; {} '' = parseQuery ''.item > {}''"
    by simp
  from T A' B' show ?thesis by blast
qed

subsection \<open>C8: the empty query\<close>



section \<open>Properties of the evaluator\<close>

lemma filterE_total:
  "(\<forall>x \<in> set xs. \<exists>b. f x = Inr b) \<Longrightarrow> filterE f xs = Inr (filter (\<lambda>x. f x = Inr True) xs)"
  by (induction xs) auto

lemma filterE_Inr:
  "filterE f xs = Inr ys \<Longrightarrow> (\<forall>x \<in> set xs. \<exists>b. f x = Inr b) \<and> ys = filter (\<lambda>x. f x = Inr True) xs"
  by (induction xs arbitrary: ys) (auto split: sum.splits if_splits)

lemma concatMapE_total:
  "(\<forall>x \<in> set xs. \<exists>zs. f x = Inr zs) \<Longrightarrow> concatMapE f xs = Inr (concat (map (\<lambda>x. results (f x)) xs))"
  by (induction xs) (auto simp: results_def)

lemma concatMapE_Inr:
  "concatMapE f xs = Inr ys \<Longrightarrow>
     (\<forall>x \<in> set xs. \<exists>zs. f x = Inr zs) \<and> ys = concat (map (\<lambda>x. results (f x)) xs)"
  by (induction xs arbitrary: ys) (auto simp: results_def split: sum.splits)

subsection \<open>The set of the results\<close>

lemma newSet_snoc: "newSet (xs @ [x]) = setAdd (newSet xs) x"
  by (simp add: newSet_def)

lemma firstOccurrences_set: "set (firstOccurrences xs) = set xs"
  by (induction xs rule: firstOccurrences.induct) auto

lemma firstOccurrences_distinct: "distinct (firstOccurrences xs)"
  by (induction xs rule: firstOccurrences.induct) (auto simp: firstOccurrences_set)

lemma removeAll_snoc: "removeAll y (xs @ [x]) = (if x = y then removeAll y xs else removeAll y xs @ [x])"
  by simp

lemma firstOccurrences_snoc:
  "firstOccurrences (xs @ [x]) = (if x \<in> set xs then firstOccurrences xs else firstOccurrences xs @ [x])"
  by (induction xs rule: firstOccurrences.induct) auto

lemma newSet_firstOccurrences: "newSet xs = firstOccurrences xs"
  by (induction xs rule: rev_induct)
     (auto simp: newSet_snoc setAdd_def firstOccurrences_snoc firstOccurrences_set, simp add: newSet_def)


subsection \<open>The tree and the exclusion of Filter mode\<close>

lemma descendants_below:
  "x \<in> set (descendants t n) \<Longrightarrow> strict_suffix n x"
  "x \<in> set (descendantsFrom ks n i) \<Longrightarrow> strict_suffix n x"
proof (induction t n and ks n i arbitrary: x and x rule: descendants_descendantsFrom.induct)
  case (1 ks n)
  then show ?case by simp
next
  case (2 n i)
  then show ?case by simp
next
  case (3 k ks n i)
  from "3.prems" consider "x = i # n" | "x \<in> set (descendants k (i # n))"
    | "x \<in> set (descendantsFrom ks n (Suc i))" by auto
  then show ?case
  proof cases
    case 1
    then show ?thesis by (simp add: strict_suffix_def suffix_def)
  next
    case 2
    from "3.IH"(1)[OF this] show ?thesis
      by (auto simp: strict_suffix_def suffix_def)
  next
    case 3
    from "3.IH"(2)[OF this] show ?thesis .
  qed
qed

lemma querySelectorAll_below:
  "querySelectorAll env N sel = Inr ms \<Longrightarrow> m \<in> set ms \<Longrightarrow> strict_suffix N m"
  by (auto simp: querySelectorAll_def descendantsOf_def descendants_below
      split: if_splits option.splits)

lemma anyMatches_Inr:
  "anyMatches env a ps = Inr b \<Longrightarrow> b = (\<exists>p \<in> set ps. selects env p a a)"
  by (induction ps) (auto simp: matches_def split: sum.splits if_splits)

lemma ancestorWalk_same: "ancestorWalk env prevs N N = Inr False"
  by (cases N) simp_all

lemma ancestorWalk_Inr:
  "ancestorWalk env prevs N (zs @ N) = Inr b \<Longrightarrow>
     b = (\<exists>a. suffix a (zs @ N) \<and> strict_suffix N a \<and> (\<exists>p \<in> set prevs. selects env p a a))"
proof (induction zs arbitrary: b)
  case Nil
  then have "b = False" by (simp add: ancestorWalk_same)
  moreover have "\<not> (\<exists>a. suffix a N \<and> strict_suffix N a \<and> (\<exists>p \<in> set prevs. selects env p a a))"
    by (auto simp: strict_suffix_def dest: suffix_order.antisym)
  ultimately show ?case by simp
next
  case (Cons z zs)
  let ?a = "z # zs @ N"
  have ne: "?a \<noteq> N" by (metis append_Cons append_self_conv2 list.distinct(1))
  have sN: "strict_suffix N ?a"
    by (metis append_Cons ne strict_suffix_def suffix_def)
  from Cons.prems ne obtain b0 where b0: "anyMatches env ?a prevs = Inr b0"
    by (auto split: sum.splits)
  from anyMatches_Inr[OF b0] have b0': "b0 = (\<exists>p \<in> set prevs. selects env p ?a ?a)" .
  show ?case
  proof (cases b0)
    case True
    with Cons.prems ne b0 have "b = True" by simp
    moreover from True b0' sN have
      "\<exists>a. suffix a ?a \<and> strict_suffix N a \<and> (\<exists>p \<in> set prevs. selects env p a a)"
      by (intro exI[of _ ?a]) simp
    ultimately show ?thesis by simp
  next
    case False
    with Cons.prems ne b0 have "ancestorWalk env prevs N (zs @ N) = Inr b" by simp
    from Cons.IH[OF this] have
      "b = (\<exists>a. suffix a (zs @ N) \<and> strict_suffix N a \<and> (\<exists>p \<in> set prevs. selects env p a a))" .
    moreover have "\<And>a. suffix a ?a \<longleftrightarrow> a = ?a \<or> suffix a (zs @ N)"
      by (auto simp: suffix_Cons)
    ultimately show ?thesis using False b0' by auto
  qed
qed

lemma shouldExclude_Inr:
  assumes "strict_suffix N m" "shouldExclude env prevs N m = Inr b"
  shows "b = excludedBy env prevs N m"
proof -
  from assms(1) obtain ys where ys: "m = ys @ N" "ys \<noteq> []"
    by (auto simp: strict_suffix_def suffix_def)
  then obtain i zs where "ys = i # zs" by (cases ys) auto
  with ys obtain parent where m: "m = i # parent" and zs: "parent = zs @ N" by simp
  have ex: "excludedBy env prevs N m =
      (\<exists>a. suffix a parent \<and> strict_suffix N a \<and> (\<exists>p \<in> set prevs. selects env p a a))"
  proof -
    have "\<And>a. suffix a parent \<Longrightarrow> a \<noteq> i # parent"
      using suffix_length_le by fastforce
    then show ?thesis
      unfolding excludedBy_def m by (auto simp: suffix_Cons)
  qed
  show ?thesis
  proof (cases "prevs = []")
    case True
    with assms(2) ex show ?thesis by (simp add: shouldExclude_def)
  next
    case False
    with assms(2) m have "ancestorWalk env prevs N (zs @ N) = Inr b"
      by (simp add: shouldExclude_def zs)
    from ancestorWalk_Inr[OF this] ex zs show ?thesis by simp
  qed
qed

lemma filterMode_Inr:
  assumes "filterMode env prevs sel rules N = Inr out"
  shows "out = filter (\<lambda>m. \<not> excludedBy env prevs N m \<and> elementMatchesRules env m rules = Inr True)
                 (candidates env sel N)"
proof -
  from assms obtain ms where
    ms: "querySelectorAll env N (if sel \<noteq> [] then sel else ''*'') = Inr ms"
    and f: "filterE (keepMatch env prevs rules N) ms = Inr out"
    by (auto simp: filterMode_def split: sum.splits)
  from filterE_Inr[OF f] have all: "\<forall>m \<in> set ms. \<exists>b. keepMatch env prevs rules N m = Inr b"
    and out: "out = filter (\<lambda>m. keepMatch env prevs rules N m = Inr True) ms" by simp_all
  have "\<And>m. m \<in> set ms \<Longrightarrow>
          (keepMatch env prevs rules N m = Inr True) =
          (\<not> excludedBy env prevs N m \<and> elementMatchesRules env m rules = Inr True)"
  proof -
    fix m assume m: "m \<in> set ms"
    from querySelectorAll_below[OF ms m] have below: "strict_suffix N m" .
    from all m obtain b where "keepMatch env prevs rules N m = Inr b" by blast
    then obtain b' where b': "shouldExclude env prevs N m = Inr b'"
      by (auto simp: keepMatch_def split: sum.splits)
    from shouldExclude_Inr[OF below b'] b'
    show "(keepMatch env prevs rules N m = Inr True) =
          (\<not> excludedBy env prevs N m \<and> elementMatchesRules env m rules = Inr True)"
      by (auto simp: keepMatch_def)
  qed
  then have "filter (\<lambda>m. keepMatch env prevs rules N m = Inr True) ms =
        filter (\<lambda>m. \<not> excludedBy env prevs N m \<and> elementMatchesRules env m rules = Inr True) ms"
    by (rule filter_cong[OF refl])
  with out ms show ?thesis by (simp add: candidates_def results_def)
qed

lemma evalPart_prevs:
  assumes "evalPart env p (cur, prevs) = Inr (cur', prevs')"
  shows "prevs' = prevs @ recordedSelectors [p]"
proof (cases p)
  case (Selector sel)
  with assms show ?thesis by (auto split: sum.splits)
next
  case (SelectorWithRules sel rel rulesText)
  with assms show ?thesis by (cases rel) (auto split: sum.splits if_splits)
qed

lemma recordedSelectors_append:
  "recordedSelectors (ps @ qs) = recordedSelectors ps @ recordedSelectors qs"
  by (induction ps rule: recordedSelectors.induct) auto

lemma evalParts_prevs:
  "evalParts env ps (cur, prevs) = Inr (cur', prevs') \<Longrightarrow> prevs' = prevs @ recordedSelectors ps"
proof (induction ps arbitrary: cur prevs)
  case Nil
  then show ?case by simp
next
  case (Cons p ps)
  from Cons.prems obtain c1 p1 where 1: "evalPart env p (cur, prevs) = Inr (c1, p1)"
    and 2: "evalParts env ps (c1, p1) = Inr (cur', prevs')"
    by (auto split: sum.splits)
  from evalPart_prevs[OF 1] Cons.IH[OF 2] recordedSelectors_append[of "[p]" ps]
  show ?case by simp
qed

subsection \<open>C2: Filter mode\<close>

text \<open>
  C2: let the parts \<open>before\<close> a Filter segment have run without an exception, from the
  root, to the current set \<open>cur\<close> and the list \<open>prevs\<close>, and let the segment return.
  Then \<open>prevs\<close> is the list of the non-empty selectors of the Filter segments among
  \<open>before\<close>; the output is, for each \<open>N\<close> of the current set in order, the candidates
  under \<open>N\<close> (the matches of the selector, or of \<^verbatim>\<open>*\<close> when it is empty) that are not
  excluded and satisfy the rules, where a candidate is excluded exactly when one of its
  strict ancestors strictly below \<open>N\<close> matches a selector of \<open>prevs\<close>; and the segment's
  own selector is added to the list after that, when it is not empty.
\<close>

theorem filter_mode_exclusion:
  assumes "evalParts env before ([root], []) = Inr (cur, prevs)"
      and "evalPart env (SelectorWithRules sel Filter rulesText) (cur, prevs) = Inr (out, prevs')"
  shows "prevs = recordedSelectors before
       \<and> out = concat (map (\<lambda>N. filter (\<lambda>m. \<not> excludedBy env prevs N m \<and> satisfies env rulesText m)
                                   (candidates env sel N)) cur)
       \<and> prevs' = (if sel \<noteq> [] then prevs @ [sel] else prevs)"
proof -
  from evalParts_prevs[OF assms(1)] have a: "prevs = recordedSelectors before" by simp
  from assms(2) have c: "concatMapE (filterMode env prevs sel (parseCSSRules rulesText)) cur = Inr out"
    and p: "prevs' = (if sel \<noteq> [] then prevs @ [sel] else prevs)"
    by (auto split: sum.splits)
  from concatMapE_Inr[OF c]
  have all: "\<forall>N \<in> set cur. \<exists>zs. filterMode env prevs sel (parseCSSRules rulesText) N = Inr zs"
    and out: "out = concat (map (\<lambda>N. results (filterMode env prevs sel (parseCSSRules rulesText) N)) cur)"
    by simp_all
  have M: "map (\<lambda>N. results (filterMode env prevs sel (parseCSSRules rulesText) N)) cur =
        map (\<lambda>N. filter (\<lambda>m. \<not> excludedBy env prevs N m \<and> satisfies env rulesText m)
                        (candidates env sel N)) cur"
  proof (rule map_cong[OF refl])
    fix N assume "N \<in> set cur"
    with all obtain zs where zs: "filterMode env prevs sel (parseCSSRules rulesText) N = Inr zs"
      by blast
    from filterMode_Inr[OF zs] zs
    show "results (filterMode env prevs sel (parseCSSRules rulesText) N) =
          filter (\<lambda>m. \<not> excludedBy env prevs N m \<and> satisfies env rulesText m) (candidates env sel N)"
      by (simp add: results_def satisfies_def)
  qed
  from out M have "out = concat (map (\<lambda>N. filter (\<lambda>m. \<not> excludedBy env prevs N m \<and> satisfies env rulesText m)
                                   (candidates env sel N)) cur)"
    by (simp only:)
  with a p show ?thesis by blast
qed


theorem filter_mode_exclusion_witness:
  "[''.item''] = recordedSelectors [SelectorWithRules ''.item'' Filter ''display: flex;'']
   \<and> [[0, 0], [0, 0, 0]] =
       concat (map (\<lambda>N. filter (\<lambda>m. \<not> excludedBy exampleEnv [''.item''] N m
                                      \<and> satisfies exampleEnv ''color: white'' m)
                                (candidates exampleEnv ''.label'' N)) [[0]])
   \<and> [''.item'', ''.label''] = (if ''.label'' \<noteq> [] then [''.item''] @ [''.label''] else [''.item''])
   \<and> candidates exampleEnv ''.label'' [0] = [[0, 0], [0, 0, 0], [0, 1, 0]]
   \<and> excludedBy exampleEnv [''.item''] [0] [0, 1, 0]"
proof -
  have 1: "evalParts exampleEnv [SelectorWithRules ''.item'' Filter ''display: flex;''] ([[]], [])
           = Inr ([[0]], [''.item''])"
    by code_simp
  have 2: "evalPart exampleEnv (SelectorWithRules ''.label'' Filter ''color: white'') ([[0]], [''.item''])
           = Inr ([[0, 0], [0, 0, 0]], [''.item'', ''.label''])"
    by code_simp
  have 3: "candidates exampleEnv ''.label'' [0] = [[0, 0], [0, 0, 0], [0, 1, 0]]"
    "excludedBy exampleEnv [''.item''] [0] [0, 1, 0]"
    by code_simp+
  from filter_mode_exclusion[OF 1 2] 3 show ?thesis by blast
qed

subsection \<open>C4: Descendant mode\<close>

lemma matchingDescendants_Inr:
  "matchingDescendants env rules r = Inr zs \<Longrightarrow>
     zs = filter (\<lambda>d. elementMatchesRules env d rules = Inr True) (descendantsOf env r)"
  by (auto simp: matchingDescendants_def querySelectorAll_def validSelector_def selects_def
      dest: filterE_Inr split: sum.splits)

lemma descendantMode_Inr:
  assumes "descendantMode env sel rules N = Inr zs"
  shows "zs = (if sel \<noteq> [] then
                 concat (map (\<lambda>m. filter (\<lambda>d. elementMatchesRules env d rules = Inr True)
                                         (descendantsOf env m))
                             (results (querySelectorAll env N sel)))
               else filter (\<lambda>d. elementMatchesRules env d rules = Inr True) (descendantsOf env N))"
proof (cases "sel = []")
  case True
  with assms show ?thesis by (simp add: descendantMode_def matchingDescendants_Inr)
next
  case False
  with assms obtain ms where ms: "querySelectorAll env N sel = Inr ms"
    and c: "concatMapE (matchingDescendants env rules) ms = Inr zs"
    by (auto simp: descendantMode_def split: sum.splits)
  from concatMapE_Inr[OF c]
  have all: "\<forall>m \<in> set ms. \<exists>ds. matchingDescendants env rules m = Inr ds"
    and zs: "zs = concat (map (\<lambda>m. results (matchingDescendants env rules m)) ms)" by simp_all
  have M: "map (\<lambda>m. results (matchingDescendants env rules m)) ms =
        map (\<lambda>m. filter (\<lambda>d. elementMatchesRules env d rules = Inr True) (descendantsOf env m)) ms"
  proof (rule map_cong[OF refl])
    fix m assume "m \<in> set ms"
    with all obtain ds where ds: "matchingDescendants env rules m = Inr ds" by blast
    from matchingDescendants_Inr[OF ds] ds
    show "results (matchingDescendants env rules m) =
          filter (\<lambda>d. elementMatchesRules env d rules = Inr True) (descendantsOf env m)"
      by (simp add: results_def)
  qed
  from zs M have "zs = concat (map (\<lambda>m. filter (\<lambda>d. elementMatchesRules env d rules = Inr True)
                                         (descendantsOf env m)) ms)"
    by (simp only:)
  with False ms show ?thesis by (simp add: results_def)
qed

text \<open>
  C4, as the claim states it, says that the matches of the selector are not kept. A match
  that lies below another match is a descendant of that match, and is kept when it
  satisfies the rules: the second item of the example lies in the first, both match
  \<^verbatim>\<open>.item\<close>, and the segment \<^verbatim>\<open>.item {color: black}\<close> returns the second item.
\<close>

theorem descendant_mode_keeps_match_counterexample:
  "evalPart exampleEnv (SelectorWithRules ''.item'' Descendant ''color: black'') ([[]], [])
     = Inr ([[1, 0]], [])
   \<and> [1, 0] \<in> set (results (querySelectorAll exampleEnv [] ''.item''))
   \<and> [0] \<in> set (results (querySelectorAll exampleEnv [] ''.item''))
   \<and> [1, 0] \<in> set (descendantsOf exampleEnv [0])
   \<and> satisfies exampleEnv ''color: black'' [1, 0]"
  by code_simp

text \<open>
  C4, amended: when a Descendant segment returns, its output is, for each \<open>N\<close> of the
  current set in order: with a non-empty selector, for each match of the selector within
  \<open>N\<close>, the descendants of that match that satisfy the rules; with the empty selector, the
  descendants of \<open>N\<close> that satisfy the rules. So a node is in the output exactly when it
  satisfies the rules and is a descendant of a search root, and a match of the selector
  is kept exactly when it is such a node. The list of earlier Filter selectors is
  returned as it was, and whatever that list holds, the output is the same.
\<close>

theorem descendant_mode_output:
  assumes "evalPart env (SelectorWithRules sel Descendant rulesText) (cur, prevs) = Inr (out, prevs')"
  shows "out = concat (map (\<lambda>N. if sel \<noteq> [] then
                                  concat (map (\<lambda>m. filter (satisfies env rulesText) (descendantsOf env m))
                                              (results (querySelectorAll env N sel)))
                                else filter (satisfies env rulesText) (descendantsOf env N)) cur)
       \<and> prevs' = prevs
       \<and> (\<forall>x. x \<in> set out \<longleftrightarrow>
                satisfies env rulesText x
                \<and> (\<exists>N \<in> set cur. \<exists>r \<in> set (searchRoots env sel N). x \<in> set (descendantsOf env r)))
       \<and> (\<forall>others. evalPart env (SelectorWithRules sel Descendant rulesText) (cur, others)
                      = Inr (out, others))"
proof -
  from assms have c: "concatMapE (descendantMode env sel (parseCSSRules rulesText)) cur = Inr out"
    and p: "prevs' = prevs"
    by (auto split: sum.splits)
  from concatMapE_Inr[OF c]
  have all: "\<forall>N \<in> set cur. \<exists>zs. descendantMode env sel (parseCSSRules rulesText) N = Inr zs"
    and out: "out = concat (map (\<lambda>N. results (descendantMode env sel (parseCSSRules rulesText) N)) cur)"
    by simp_all
  have M: "map (\<lambda>N. results (descendantMode env sel (parseCSSRules rulesText) N)) cur =
           map (\<lambda>N. if sel \<noteq> [] then
                                  concat (map (\<lambda>m. filter (satisfies env rulesText) (descendantsOf env m))
                                              (results (querySelectorAll env N sel)))
                                else filter (satisfies env rulesText) (descendantsOf env N)) cur"
  proof (rule map_cong[OF refl])
    fix N assume "N \<in> set cur"
    with all obtain zs where zs: "descendantMode env sel (parseCSSRules rulesText) N = Inr zs"
      by blast
    from descendantMode_Inr[OF zs] zs
    show "results (descendantMode env sel (parseCSSRules rulesText) N) =
          (if sel \<noteq> [] then
             concat (map (\<lambda>m. filter (satisfies env rulesText) (descendantsOf env m))
                         (results (querySelectorAll env N sel)))
           else filter (satisfies env rulesText) (descendantsOf env N))"
      by (simp add: results_def satisfies_def[abs_def])
  qed
  from out M have o: "out = concat (map (\<lambda>N. if sel \<noteq> [] then
                                  concat (map (\<lambda>m. filter (satisfies env rulesText) (descendantsOf env m))
                                              (results (querySelectorAll env N sel)))
                                else filter (satisfies env rulesText) (descendantsOf env N)) cur)"
    by (simp only:)
  have m: "\<forall>x. x \<in> set out \<longleftrightarrow>
                satisfies env rulesText x
                \<and> (\<exists>N \<in> set cur. \<exists>r \<in> set (searchRoots env sel N). x \<in> set (descendantsOf env r))"
    unfolding o searchRoots_def by auto
  from c have "\<forall>others. evalPart env (SelectorWithRules sel Descendant rulesText) (cur, others)
                      = Inr (out, others)"
    by simp
  with o p m show ?thesis by blast
qed

theorem descendant_mode_output_witness:
  "[[1, 0]] =
     concat (map (\<lambda>N. if ''.item'' \<noteq> [] then
                         concat (map (\<lambda>m. filter (satisfies exampleEnv ''color: black'') (descendantsOf exampleEnv m))
                                     (results (querySelectorAll exampleEnv N ''.item'')))
                       else filter (satisfies exampleEnv ''color: black'') (descendantsOf exampleEnv N)) [[]])
   \<and> [''.label''] = [''.label'']
   \<and> (\<forall>x. x \<in> set [[1, 0]] \<longleftrightarrow>
            satisfies exampleEnv ''color: black'' x
            \<and> (\<exists>N \<in> set [[]]. \<exists>r \<in> set (searchRoots exampleEnv ''.item'' N).
                  x \<in> set (descendantsOf exampleEnv r)))
   \<and> (\<forall>others. evalPart exampleEnv (SelectorWithRules ''.item'' Descendant ''color: black'') ([[]], others)
                  = Inr ([[1, 0]], others))"
proof -
  have 1: "evalPart exampleEnv (SelectorWithRules ''.item'' Descendant ''color: black'') ([[]], [''.label''])
           = Inr ([[1, 0]], [''.label''])"
    by code_simp
  from descendant_mode_output[OF 1] show ?thesis .
qed

subsection \<open>C5: Child mode\<close>

lemma children_form: "c \<in> set (children env n) \<Longrightarrow> \<exists>i. c = i # n"
  by (auto simp: children_def split: option.splits dom.splits)

lemma childMode_Inr:
  assumes "childMode env sel rules N = Inr zs"
  shows "zs = concat (map (\<lambda>R. filter (\<lambda>c. elementMatchesRules env c rules = Inr True) (children env R))
                          (searchRoots env sel N))"
proof -
  from assms obtain rs where
    rs: "(if sel \<noteq> [] then querySelectorAll env N sel else Inr [N]) = Inr rs"
    and c: "concatMapE (\<lambda>searchRoot. filterE (\<lambda>c. elementMatchesRules env c rules)
                                    (children env searchRoot)) rs = Inr zs"
    by (auto simp: childMode_def split: sum.splits)
  from rs have sr: "searchRoots env sel N = rs"
    by (auto simp: searchRoots_def results_def split: if_splits)
  from concatMapE_Inr[OF c]
  have all: "\<forall>R \<in> set rs. \<exists>ds. filterE (\<lambda>c. elementMatchesRules env c rules) (children env R) = Inr ds"
    and zs: "zs = concat (map (\<lambda>R. results (filterE (\<lambda>c. elementMatchesRules env c rules) (children env R))) rs)"
    by simp_all
  have M: "map (\<lambda>R. results (filterE (\<lambda>c. elementMatchesRules env c rules) (children env R))) rs =
           map (\<lambda>R. filter (\<lambda>c. elementMatchesRules env c rules = Inr True) (children env R)) rs"
  proof (rule map_cong[OF refl])
    fix R assume "R \<in> set rs"
    with all obtain ds where ds: "filterE (\<lambda>c. elementMatchesRules env c rules) (children env R) = Inr ds"
      by blast
    from filterE_Inr[OF ds] ds
    show "results (filterE (\<lambda>c. elementMatchesRules env c rules) (children env R)) =
          filter (\<lambda>c. elementMatchesRules env c rules = Inr True) (children env R)"
      by (simp add: results_def)
  qed
  from zs M sr show ?thesis by (simp only:)
qed

text \<open>
  C5: when a Child segment returns, its output is, for each \<open>N\<close> of the current set in
  order and each search root of \<open>N\<close> (the matches of the selector within \<open>N\<close>, or \<open>N\<close>
  itself when the selector is empty), the immediate children of the search root that
  satisfy the rules. In particular, searching from a parent \<open>P\<close> alone with the empty
  selector, a child \<open>C\<close> of \<open>P\<close> and a child \<open>G\<close> of \<open>C\<close> that both satisfy the rules:
  \<open>C\<close> is in the output and \<open>G\<close> is not.
\<close>

theorem child_mode_output:
  assumes "evalPart env (SelectorWithRules sel Child rulesText) (cur, prevs) = Inr (out, prevs')"
  shows "out = concat (map (\<lambda>N. concat (map (\<lambda>R. filter (satisfies env rulesText) (children env R))
                                             (searchRoots env sel N))) cur)
       \<and> prevs' = prevs
       \<and> (\<forall>P C G. sel = [] \<and> cur = [P] \<and> C \<in> set (children env P) \<and> G \<in> set (children env C)
                  \<and> satisfies env rulesText C \<and> satisfies env rulesText G
                  \<longrightarrow> C \<in> set out \<and> G \<notin> set out)"
proof -
  from assms have c: "concatMapE (childMode env sel (parseCSSRules rulesText)) cur = Inr out"
    and p: "prevs' = prevs"
    by (auto split: sum.splits)
  from concatMapE_Inr[OF c]
  have all: "\<forall>N \<in> set cur. \<exists>zs. childMode env sel (parseCSSRules rulesText) N = Inr zs"
    and out: "out = concat (map (\<lambda>N. results (childMode env sel (parseCSSRules rulesText) N)) cur)"
    by simp_all
  have M: "map (\<lambda>N. results (childMode env sel (parseCSSRules rulesText) N)) cur =
           map (\<lambda>N. concat (map (\<lambda>R. filter (satisfies env rulesText) (children env R))
                                             (searchRoots env sel N))) cur"
  proof (rule map_cong[OF refl])
    fix N assume "N \<in> set cur"
    with all obtain zs where zs: "childMode env sel (parseCSSRules rulesText) N = Inr zs"
      by blast
    from childMode_Inr[OF zs] zs
    show "results (childMode env sel (parseCSSRules rulesText) N) =
          concat (map (\<lambda>R. filter (satisfies env rulesText) (children env R)) (searchRoots env sel N))"
      by (simp add: results_def satisfies_def[abs_def])
  qed
  from out M have o: "out = concat (map (\<lambda>N. concat (map (\<lambda>R. filter (satisfies env rulesText) (children env R))
                                             (searchRoots env sel N))) cur)"
    by (simp only:)
  have "\<forall>P C G. sel = [] \<and> cur = [P] \<and> C \<in> set (children env P) \<and> G \<in> set (children env C)
                  \<and> satisfies env rulesText C \<and> satisfies env rulesText G
                  \<longrightarrow> C \<in> set out \<and> G \<notin> set out"
  proof (intro allI impI)
    fix P C G
    assume a: "sel = [] \<and> cur = [P] \<and> C \<in> set (children env P) \<and> G \<in> set (children env C)
                  \<and> satisfies env rulesText C \<and> satisfies env rulesText G"
    with o have o': "out = filter (satisfies env rulesText) (children env P)"
      by (simp add: searchRoots_def)
    from a obtain i j where "C = i # P" "G = j # C" by (meson children_form)
    then have "G \<notin> set (children env P)" by (auto dest: children_form)
    with o' a show "C \<in> set out \<and> G \<notin> set out" by simp
  qed
  with o p show ?thesis by blast
qed

theorem child_mode_output_witness:
  "[[0, 0]] = concat (map (\<lambda>N. concat (map (\<lambda>R. filter (satisfies exampleEnv ''color: white;'') (children exampleEnv R))
                                             (searchRoots exampleEnv [] N))) [[0]])
   \<and> [0, 0] \<in> set (children exampleEnv [0]) \<and> [0, 0, 0] \<in> set (children exampleEnv [0, 0])
   \<and> satisfies exampleEnv ''color: white;'' [0, 0] \<and> satisfies exampleEnv ''color: white;'' [0, 0, 0]
   \<and> [0, 0] \<in> set [[0 :: nat, 0]] \<and> [0, 0, 0] \<notin> set [[0 :: nat, 0]]"
proof -
  have 1: "evalPart exampleEnv (SelectorWithRules [] Child ''color: white;'') ([[0]], [])
           = Inr ([[0, 0]], [])"
    by code_simp
  have 2: "[0, 0] \<in> set (children exampleEnv [0])" "[0, 0, 0] \<in> set (children exampleEnv [0, 0])"
    "satisfies exampleEnv ''color: white;'' [0, 0]" "satisfies exampleEnv ''color: white;'' [0, 0, 0]"
    by code_simp+
  from child_mode_output[OF 1] 2 show ?thesis by blast
qed


subsection \<open>C6: the result\<close>

text \<open>
  C6: when the query parses and its parts run without an exception to the sequence
  \<open>cur\<close>, then \<open>findAll\<close> returns \<open>cur\<close> without its repetitions, each node where it
  first occurs, so no node is returned twice and every node of \<open>cur\<close> is returned; and
  the search for the first match returns the first node of that sequence, which is the
  first node of \<open>cur\<close>, or \<^verbatim>\<open>null\<close> when there is none.
\<close>

theorem result_deduplicated:
  assumes "parseQuery query = Inr ps" "evalParts env ps ([root], []) = Inr (cur, prevs)"
  shows "executeQuery env query root True = Inr (FoundAll (firstOccurrences cur))
       \<and> distinct (firstOccurrences cur) \<and> set (firstOccurrences cur) = set cur
       \<and> executeQuery env query root False
           = Inr (case firstOccurrences cur of [] \<Rightarrow> Null | x # _ \<Rightarrow> Found x)
       \<and> (case firstOccurrences cur of [] \<Rightarrow> Null | x # _ \<Rightarrow> Found x)
           = (case cur of [] \<Rightarrow> Null | x # _ \<Rightarrow> Found x)"
proof -
  have "(case firstOccurrences cur of [] \<Rightarrow> Null | x # _ \<Rightarrow> Found x)
           = (case cur of [] \<Rightarrow> Null | x # _ \<Rightarrow> Found x)"
    by (cases cur) simp_all
  with assms show ?thesis
    by (simp add: executeQuery_def newSet_firstOccurrences firstOccurrences_distinct
        firstOccurrences_set)
qed

theorem result_deduplicated_witness:
  "executeQuery exampleEnv ''.item { color: #FFF }'' [] True
     = Inr (FoundAll [[0, 0], [0, 0, 0], [0, 1, 0], [0, 1]])
   \<and> distinct [[0 :: nat, 0], [0, 0, 0], [0, 1, 0], [0, 1]]
   \<and> set [[0 :: nat, 0], [0, 0, 0], [0, 1, 0], [0, 1]]
       = set [[0, 0], [0, 0, 0], [0, 1, 0], [0, 1, 0], [0, 1]]
   \<and> executeQuery exampleEnv ''.item { color: #FFF }'' [] False = Inr (Found [0, 0])"
proof -
  have 1: "parseQuery ''.item { color: #FFF }'' = Inr [SelectorWithRules ''.item'' Descendant ''color: #FFF'']"
    by code_simp
  have 2: "evalParts exampleEnv [SelectorWithRules ''.item'' Descendant ''color: #FFF''] ([[]], [])
           = Inr ([[0, 0], [0, 0, 0], [0, 1, 0], [0, 1, 0], [0, 1]], [])"
    by code_simp
  have 3: "firstOccurrences [[0 :: nat, 0], [0, 0, 0], [0, 1, 0], [0, 1, 0], [0, 1]]
           = [[0, 0], [0, 0, 0], [0, 1, 0], [0, 1]]"
    by simp
  from result_deduplicated[OF 1 2] show ?thesis unfolding 3 by simp
qed

section \<open>Properties of rule matching\<close>

subsection \<open>C3: rule matching\<close>

lemma set_entries: "set (entries rules) = set rules"
  by (auto simp: entries_def)

lemma matchEntries_True:
  "matchEntries env el es = Inr True \<longleftrightarrow> (\<forall>kv \<in> set es. pairMatches env el (fst kv) (snd kv))"
proof (induction es)
  case Nil
  then show ?case by simp
next
  case (Cons kv es)
  obtain p v where kv: "kv = (p, v)" by (cases kv)
  show ?case
  proof (cases "normalizeCSSValue (hslToRgb env) v")
    case (Inl e)
    then show ?thesis by (simp add: kv pairMatches_def)
  next
    case (Inr a)
    note a = this
    show ?thesis
    proof (cases "normalizeValue (hslToRgb env) (actualValue env el p)")
      case (Inl e)
      with a show ?thesis by (simp add: kv pairMatches_def)
    next
      case (Inr b)
      with a Cons.IH show ?thesis by (simp add: kv pairMatches_def)
    qed
  qed
qed

lemma matchEntries_False:
  "(\<forall>x \<in> set pre. pairMatches env el (fst x) (snd x)) \<Longrightarrow> pairMismatches env el (fst kv) (snd kv)
     \<Longrightarrow> matchEntries env el (pre @ kv # post) = Inr False"
proof (induction pre)
  case Nil
  obtain p v where kv: "kv = (p, v)" by (cases kv)
  from Nil(2) show ?case
    by (auto simp: kv pairMismatches_def split: sum.splits)
next
  case (Cons x pre)
  obtain p v where x: "x = (p, v)" by (cases x)
  from Cons.prems(1) have "pairMatches env el p v" by (simp add: x)
  moreover from Cons have "matchEntries env el (pre @ kv # post) = Inr False" by simp
  ultimately show ?case
    by (auto simp: x pairMatches_def split: sum.splits)
qed

lemma elementMatchesRules_True:
  "elementMatchesRules env el rules = Inr True \<longleftrightarrow>
     (\<forall>kv \<in> set rules. pairMatches env el (fst kv) (snd kv))"
  by (simp add: elementMatchesRules_def matchEntries_True set_entries)

lemma normalizePropertyName_plain:
  "CHR ''-'' \<notin> set w \<Longrightarrow> normalizePropertyName w = w"
  by (induction w rule: normalizePropertyName.induct) auto

lemma normalizePropertyName_word:
  assumes "CHR ''-'' \<notin> set w" "isLowerAZ l"
  shows "normalizePropertyName (w @ CHR ''-'' # l # rest) =
           w @ char_of (of_char l - (32 :: nat)) # normalizePropertyName rest"
  using assms(1)
proof (induction w)
  case Nil
  with assms(2) show ?case by simp
next
  case (Cons x w)
  then show ?case by (cases w) auto
qed

lemma kebab_Cons: "kebab w ((l # cs) # xs) = w @ CHR ''-'' # l # kebab cs xs"
  by (simp add: kebab_def)

lemma camel_Cons: "camel w ((l # cs) # xs) = w @ char_of (of_char l - (32 :: nat)) # camel cs xs"
  by (simp add: camel_def capitalize_def)

lemma kebab_to_camel:
  "kebabWords w ws \<Longrightarrow> normalizePropertyName (kebab w ws) = camel w ws"
proof (induction ws arbitrary: w)
  case Nil
  then show ?case by (simp add: kebabWords_def kebab_def camel_def normalizePropertyName_plain)
next
  case (Cons x xs)
  from Cons.prems obtain l cs where x: "x = l # cs" and l: "isLowerAZ l"
    and w: "CHR ''-'' \<notin> set w" and rest: "kebabWords cs xs"
    by (cases x) (auto simp: kebabWords_def)
  from normalizePropertyName_word[OF w l] Cons.IH[OF rest]
  show ?case by (simp add: x kebab_Cons camel_Cons)
qed

text \<open>
  C3: rule matching returns true exactly when every pair of the rule mapping matches the
  node: the normalized expected value and the normalized resolved value both exist and
  are equal. The empty mapping matches every node, and the first pair that mismatches
  ends the evaluation with false, whatever follows it. The resolved value of a property
  written in kebab case, \<^verbatim>\<open>w-x-y\<close> with words that start with a small letter, is what
  the style holds under the camel-cased key \<^verbatim>\<open>wXY\<close>, and what the generic lookup by the
  property's own name returns when the style holds nothing there (\<^verbatim>\<open>undefined\<close>, or the
  empty string, which the style uses for a property without a value).
\<close>

theorem rule_matching:
  "(elementMatchesRules env el rules = Inr True \<longleftrightarrow>
      (\<forall>kv \<in> set rules. pairMatches env el (fst kv) (snd kv)))
   \<and> elementMatchesRules env el [] = Inr True
   \<and> (\<forall>pre kv post.
         entries rules = pre @ kv # post
         \<and> (\<forall>x \<in> set pre. pairMatches env el (fst x) (snd x))
         \<and> pairMismatches env el (fst kv) (snd kv)
         \<longrightarrow> elementMatchesRules env el rules = Inr False)
   \<and> (\<forall>w ws. kebabWords w ws \<longrightarrow>
         normalizePropertyName (kebab w ws) = camel w ws
         \<and> actualValue env el (kebab w ws) =
             (if truthy (styleOf env el (camel w ws)) then styleOf env el (camel w ws)
              else Text (propertyValue env el (kebab w ws))))"
proof -
  have "elementMatchesRules env el [] = Inr True"
    by (simp add: elementMatchesRules_def entries_def)
  moreover have "\<forall>pre kv post.
         entries rules = pre @ kv # post
         \<and> (\<forall>x \<in> set pre. pairMatches env el (fst x) (snd x))
         \<and> pairMismatches env el (fst kv) (snd kv)
         \<longrightarrow> elementMatchesRules env el rules = Inr False"
    by (auto simp: elementMatchesRules_def matchEntries_False)
  moreover have "\<forall>w ws. kebabWords w ws \<longrightarrow>
         normalizePropertyName (kebab w ws) = camel w ws
         \<and> actualValue env el (kebab w ws) =
             (if truthy (styleOf env el (camel w ws)) then styleOf env el (camel w ws)
              else Text (propertyValue env el (kebab w ws)))"
    by (simp add: actualValue_def Let_def kebab_to_camel)
  ultimately show ?thesis using elementMatchesRules_True by blast
qed

theorem rule_matching_witness:
  "elementMatchesRules exampleEnv [0] [(''display'', ''FLEX ''), (''background-color'', ''#00F'')] = Inr True
   \<and> pairMatches exampleEnv [0] ''display'' ''FLEX ''
   \<and> pairMatches exampleEnv [0] ''background-color'' ''#00F''
   \<and> elementMatchesRules exampleEnv [0] [] = Inr True
   \<and> entries [(''color'', ''white''), (''content'', ''constructor'')]
       = [] @ (''color'', ''white'') # [(''content'', ''constructor'')]
   \<and> pairMismatches exampleEnv [0] ''color'' ''white''
   \<and> normalizeCSSValue (hslToRgb exampleEnv) ''constructor'' = Inl TypeError
   \<and> elementMatchesRules exampleEnv [0] [(''color'', ''white''), (''content'', ''constructor'')] = Inr False
   \<and> normalizePropertyName ''background-color'' = ''backgroundColor''
   \<and> actualValue exampleEnv [0] ''background-color'' = Text ''rgb(0, 0, 255)''
   \<and> actualValue exampleEnv [0] ''--accent'' = Text ''red''
   \<and> elementMatchesRules exampleEnv [0] [(''length'', ''5'')] = Inl TypeError"
proof -
  have 1: "pairMatches exampleEnv [0] ''display'' ''FLEX ''"
    "pairMatches exampleEnv [0] ''background-color'' ''#00F''"
    by code_simp+
  have 2: "entries [(''color'', ''white''), (''content'', ''constructor'')]
       = [] @ (''color'', ''white'') # [(''content'', ''constructor'')]"
    "pairMismatches exampleEnv [0] ''color'' ''white''"
    "normalizeCSSValue (hslToRgb exampleEnv) ''constructor'' = Inl TypeError"
    by code_simp+
  have 3: "kebabWords ''background'' [''color'']"
    "kebab ''background'' [''color''] = ''background-color''"
    "camel ''background'' [''color''] = ''backgroundColor''"
    "truthy (styleOf exampleEnv [0] ''backgroundColor'')"
    "styleOf exampleEnv [0] ''backgroundColor'' = Text ''rgb(0, 0, 255)''"
    by code_simp+
  have 4: "actualValue exampleEnv [0] ''--accent'' = Text ''red''"
    "elementMatchesRules exampleEnv [0] [(''length'', ''5'')] = Inl TypeError"
    by code_simp+
  note t1 = rule_matching[of exampleEnv "[0]" "[(''display'', ''FLEX ''), (''background-color'', ''#00F'')]"]
  note t2 = rule_matching[of exampleEnv "[0]" "[(''color'', ''white''), (''content'', ''constructor'')]"]
  from t1[THEN conjunct1] 1
  have a: "elementMatchesRules exampleEnv [0] [(''display'', ''FLEX ''), (''background-color'', ''#00F'')] = Inr True"
    by simp
  from t1 have b: "elementMatchesRules exampleEnv [0] [] = Inr True" by (elim conjE)
  note sc = t2[THEN conjunct2, THEN conjunct2, THEN conjunct1, rule_format,
               of "[]" "(''color'', ''white'')" "[(''content'', ''constructor'')]"]
  from sc 2 have c: "elementMatchesRules exampleEnv [0] [(''color'', ''white''), (''content'', ''constructor'')] = Inr False"
    by simp
  note k = t1[THEN conjunct2, THEN conjunct2, THEN conjunct2, rule_format, OF 3(1)]
  from k[THEN conjunct1] have d: "normalizePropertyName ''background-color'' = ''backgroundColor''"
    unfolding 3(2) 3(3) .
  from k[THEN conjunct2] have e: "actualValue exampleEnv [0] ''background-color'' = Text ''rgb(0, 0, 255)''"
    unfolding 3(2) 3(3) using 3(4) 3(5) by simp
  from a 1 b 2 c d e 4 show ?thesis by (intro conjI)
qed

subsection \<open>C9: the order of the clauses\<close>

lemma addLine_clauseOf:
  "addLine rules line = (case clauseOf line of None \<Rightarrow> rules | Some (p, v) \<Rightarrow> setProperty rules p v)"
  by (simp add: addLine_def clauseOf_def Let_def)

lemma foldl_addLine:
  "foldl addLine rules lines = foldl (\<lambda>r kv. setProperty r (fst kv) (snd kv)) rules (List.map_filter clauseOf lines)"
  by (induction lines arbitrary: rules) (auto simp: addLine_clauseOf List.map_filter_simps split: option.splits)

lemma parseCSSRules_clauses:
  "parseCSSRules s = foldl (\<lambda>r kv. setProperty r (fst kv) (snd kv)) [] (clauses s)"
  by (simp add: parseCSSRules_def clauses_def foldl_addLine)

lemma setProperty_set:
  assumes "\<forall>x \<in> set obj. fst x = k \<longrightarrow> snd x = v"
  shows "set (setProperty obj k v) = (if k = ''__proto__'' then set obj else insert (k, v) (set obj))"
proof -
  have same: "map (\<lambda>(k', v'). if k' = k then (k', v) else (k', v')) obj = obj"
    using assms by (induction obj) auto
  show ?thesis
  proof (cases "map_of obj k")
    case None
    then show ?thesis by (simp add: setProperty_def)
  next
    case (Some v')
    then have "(k, v') \<in> set obj" by (rule map_of_SomeD)
    with assms have "(k, v) \<in> set obj" by fastforce
    then have "insert (k, v) (set obj) = set obj" by blast
    with Some same show ?thesis by (simp add: setProperty_def)
  qed
qed

lemma singleValued_subset:
  assumes "set xs \<subseteq> set ys" "singleValued ys"
  shows "singleValued xs"
  unfolding singleValued_def
proof (intro ballI impI)
  fix a b assume "a \<in> set xs" "b \<in> set xs" "fst a = fst b"
  with assms(1) have "a \<in> set ys" "b \<in> set ys" by blast+
  with assms(2) \<open>fst a = fst b\<close> show "snd a = snd b"
    unfolding singleValued_def by blast
qed

lemma foldl_setProperty_set:
  assumes "singleValued (obj @ kvs)"
  shows "set (foldl (\<lambda>r kv. setProperty r (fst kv) (snd kv)) obj kvs)
           = set obj \<union> {kv \<in> set kvs. fst kv \<noteq> ''__proto__''}"
  using assms
proof (induction kvs arbitrary: obj)
  case Nil
  then show ?case by simp
next
  case (Cons kv kvs)
  obtain k v where kv: "kv = (k, v)" by (cases kv)
  have 1: "\<forall>x \<in> set obj. fst x = k \<longrightarrow> snd x = v"
  proof (intro ballI impI)
    fix x assume "x \<in> set obj" "fst x = k"
    then have "x \<in> set (obj @ kv # kvs)" "kv \<in> set (obj @ kv # kvs)" "fst x = fst kv"
      by (simp_all add: kv)
    with Cons.prems have "snd x = snd kv" unfolding singleValued_def by blast
    then show "snd x = v" by (simp add: kv)
  qed
  note s = setProperty_set[OF 1]
  have "set (setProperty obj k v @ kvs) \<subseteq> set (obj @ kv # kvs)"
    unfolding set_append s by (auto simp: kv)
  from singleValued_subset[OF this Cons.prems]
  have "singleValued (setProperty obj k v @ kvs)" .
  from Cons.IH[OF this]
  have "set (foldl (\<lambda>r kv. setProperty r (fst kv) (snd kv)) (setProperty obj k v) kvs)
          = set (setProperty obj k v) \<union> {kv \<in> set kvs. fst kv \<noteq> ''__proto__''}" .
  then show ?case unfolding s by (auto simp: kv)
qed

lemma parseCSSRules_set:
  "singleValued (clauses s) \<Longrightarrow> set (parseCSSRules s) = {kv \<in> set (clauses s). fst kv \<noteq> ''__proto__''}"
  using foldl_setProperty_set[of "[]" "clauses s"] by (simp add: parseCSSRules_clauses)

lemma matchEntries_noThrow:
  "noThrow env el es \<Longrightarrow>
     matchEntries env el es = Inr (\<forall>kv \<in> set es. pairMatches env el (fst kv) (snd kv))"
proof (induction es)
  case Nil
  then show ?case by simp
next
  case (Cons kv es)
  obtain p v where kv: "kv = (p, v)" by (cases kv)
  from Cons.prems obtain a b where a: "normalizeCSSValue (hslToRgb env) v = Inr a"
    and b: "normalizeValue (hslToRgb env) (actualValue env el p) = Inr b"
    and rest: "noThrow env el es"
    by (auto simp: noThrow_def kv split: sum.splits)
  from Cons.IH[OF rest] a b show ?case
    by (simp add: kv pairMatches_def)
qed

lemma noThrow_set: "set xs = set ys \<Longrightarrow> noThrow env el xs = noThrow env el ys"
  unfolding noThrow_def list_all_iff by (simp only:)

lemma elementMatchesRules_noThrow:
  assumes "noThrow env el rules"
  shows "elementMatchesRules env el rules = Inr (\<forall>kv \<in> set rules. pairMatches env el (fst kv) (snd kv))"
proof -
  from assms noThrow_set[OF set_entries] have "noThrow env el (entries rules)" by blast
  from matchEntries_noThrow[OF this] show ?thesis
    unfolding elementMatchesRules_def set_entries .
qed

lemma evalPart_rules_cong:
  assumes "\<forall>n. elementMatchesRules env n (parseCSSRules s1) = elementMatchesRules env n (parseCSSRules s2)"
  shows "evalPart env (SelectorWithRules sel rel s1) st = evalPart env (SelectorWithRules sel rel s2) st"
proof -
  from assms have e: "(\<lambda>n. elementMatchesRules env n (parseCSSRules s1))
                      = (\<lambda>n. elementMatchesRules env n (parseCSSRules s2))"
    by (intro ext) simp
  have k: "keepMatch env prevs (parseCSSRules s1) = keepMatch env prevs (parseCSSRules s2)" for prevs
    by (intro ext) (simp add: keepMatch_def assms split: sum.splits)
  have f: "filterMode env prevs sel (parseCSSRules s1) = filterMode env prevs sel (parseCSSRules s2)" for prevs
    by (intro ext) (unfold filterMode_def k, rule refl)
  have m: "matchingDescendants env (parseCSSRules s1) = matchingDescendants env (parseCSSRules s2)"
    by (intro ext) (unfold matchingDescendants_def e, rule refl)
  have d: "descendantMode env sel (parseCSSRules s1) = descendantMode env sel (parseCSSRules s2)"
    by (intro ext) (unfold descendantMode_def m, rule refl)
  have c: "childMode env sel (parseCSSRules s1) = childMode env sel (parseCSSRules s2)"
    by (intro ext) (unfold childMode_def e, rule refl)
  obtain cur prevs where st: "st = (cur, prevs)" by (cases st)
  show ?thesis
    by (cases rel) (simp_all add: st f d c)
qed

lemma evalParts_part_cong:
  assumes "\<forall>st. evalPart env p1 st = evalPart env p2 st"
  shows "evalParts env (before @ p1 # after) st = evalParts env (before @ p2 # after) st"
  by (induction before arbitrary: st) (simp_all add: assms split: sum.splits)

lemma example_values:
  "\<forall>v \<in> set [''flex'', ''inline'', ''block'', ''rgb(255, 255, 255)'', ''rgb(0, 0, 0)'', ''#000''].
     (case normalizeCSSValue (hslToRgb exampleEnv) v of Inl e \<Rightarrow> False | Inr a \<Rightarrow> True)"
  by code_simp

lemma example_noThrow:
  "noThrow exampleEnv n [(''display'', ''flex''), (''color'', ''#000'')]"
proof -
  have n: "normalizePropertyName ''display'' = ''display''" "normalizePropertyName ''color'' = ''color''"
    by code_simp+
  have d: "actualValue exampleEnv n ''display'' \<in> Text ` set [''flex'', ''inline'', ''block'']"
    by (simp add: actualValue_def n exampleEnv_def exampleStyle_def truthy_def)
  have c: "actualValue exampleEnv n ''color'' \<in> Text ` set [''rgb(255, 255, 255)'', ''rgb(0, 0, 0)'']"
    by (simp add: actualValue_def n exampleEnv_def exampleStyle_def truthy_def)
  have t: "normalizeValue (hslToRgb exampleEnv) (Text v) = normalizeCSSValue (hslToRgb exampleEnv) v"
    if "v \<noteq> []" for v
    using that by (simp add: normalizeValue_def truthy_def)
  from d example_values
  have 1: "case normalizeValue (hslToRgb exampleEnv) (actualValue exampleEnv n ''display'') of
             Inl e \<Rightarrow> False | Inr b \<Rightarrow> True"
    by (auto simp: t)
  from c example_values
  have 2: "case normalizeValue (hslToRgb exampleEnv) (actualValue exampleEnv n ''color'') of
             Inl e \<Rightarrow> False | Inr b \<Rightarrow> True"
    by (auto simp: t)
  from example_values
  have 3: "case normalizeCSSValue (hslToRgb exampleEnv) ''flex'' of Inl e \<Rightarrow> False | Inr a \<Rightarrow> True"
    "case normalizeCSSValue (hslToRgb exampleEnv) ''#000'' of Inl e \<Rightarrow> False | Inr a \<Rightarrow> True"
    by simp_all
  from 1 2 3 show ?thesis
    by (simp add: noThrow_def split: sum.splits)
qed

text \<open>
  C9, as the claim states it, holds for every rule block. A later clause for the same
  property overwrites an earlier one, so the order of two clauses for one property
  decides which value is matched: a white label satisfies
  \<^verbatim>\<open>color: black;color: white\<close> and does not satisfy \<^verbatim>\<open>color: white;color: black\<close>, and
  the two queries return different nodes. And the first mismatch ends the evaluation
  before a later value is normalized, so the order decides whether a normalization that
  throws is reached: on a black node \<^verbatim>\<open>color: white;content: constructor\<close> is false and
  the query returns, and \<^verbatim>\<open>content: constructor;color: white\<close> throws.
\<close>

theorem rule_order_counterexample:
  "mset (splitOn (CHR '';'') ''color: black;color: white'')
     = mset (splitOn (CHR '';'') ''color: white;color: black'')
   \<and> satisfies exampleEnv ''color: black;color: white'' [0, 0]
   \<and> \<not> satisfies exampleEnv ''color: white;color: black'' [0, 0]
   \<and> executeQuery exampleEnv ''.label{color: black;color: white}'' [] True
       = Inr (FoundAll [[0, 0], [0, 0, 0], [0, 1, 0], [0, 1]])
   \<and> executeQuery exampleEnv ''.label{color: white;color: black}'' [] True = Inr (FoundAll [])
   \<and> mset (splitOn (CHR '';'') ''color: white;content: constructor'')
     = mset (splitOn (CHR '';'') ''content: constructor;color: white'')
   \<and> singleValued (clauses ''color: white;content: constructor'')
   \<and> elementMatchesRules exampleEnv [0] (parseCSSRules ''color: white;content: constructor'') = Inr False
   \<and> elementMatchesRules exampleEnv [0] (parseCSSRules ''content: constructor;color: white'') = Inl TypeError
   \<and> executeQuery exampleEnv ''.item{color: white;content: constructor}'' [] True = Inr (FoundAll [])
   \<and> executeQuery exampleEnv ''.item{content: constructor;color: white}'' [] True = Inl TypeError"
proof -
  have 1: "splitOn (CHR '';'') ''color: black;color: white'' = [''color: black'', ''color: white'']"
    "splitOn (CHR '';'') ''color: white;color: black'' = [''color: white'', ''color: black'']"
    "splitOn (CHR '';'') ''color: white;content: constructor'' = [''color: white'', ''content: constructor'']"
    "splitOn (CHR '';'') ''content: constructor;color: white'' = [''content: constructor'', ''color: white'']"
    by code_simp+
  have 2: "mset (splitOn (CHR '';'') ''color: black;color: white'')
     = mset (splitOn (CHR '';'') ''color: white;color: black'')"
    "mset (splitOn (CHR '';'') ''color: white;content: constructor'')
     = mset (splitOn (CHR '';'') ''content: constructor;color: white'')"
    unfolding 1 by (simp_all add: add_mset_commute)
  have 3: "satisfies exampleEnv ''color: black;color: white'' [0, 0]"
    "\<not> satisfies exampleEnv ''color: white;color: black'' [0, 0]"
    by code_simp+
  have 4: "executeQuery exampleEnv ''.label{color: black;color: white}'' [] True
       = Inr (FoundAll [[0, 0], [0, 0, 0], [0, 1, 0], [0, 1]])"
    "executeQuery exampleEnv ''.label{color: white;color: black}'' [] True = Inr (FoundAll [])"
    by code_simp+
  have c: "clauses ''color: white;content: constructor'' = [(''color'', ''white''), (''content'', ''constructor'')]"
    by code_simp
  have 5: "singleValued (clauses ''color: white;content: constructor'')"
    unfolding c by (simp add: singleValued_def)
  have 6: "elementMatchesRules exampleEnv [0] (parseCSSRules ''color: white;content: constructor'') = Inr False"
    "elementMatchesRules exampleEnv [0] (parseCSSRules ''content: constructor;color: white'') = Inl TypeError"
    by code_simp+
  have 7: "executeQuery exampleEnv ''.item{color: white;content: constructor}'' [] True = Inr (FoundAll [])"
    "executeQuery exampleEnv ''.item{content: constructor;color: white}'' [] True = Inl TypeError"
    by code_simp+
  from 2 3 4 5 6 7 show ?thesis by (intro conjI)
qed

text \<open>
  C9, amended: take two rule blocks with the same clauses, in whatever order and with
  whatever white space around them, in which no property is given two different values.
  A node satisfies the one exactly when it satisfies the other. When moreover no
  normalization throws, for any pair of the block on any node, then rule matching
  returns the same on every node for both blocks, the evaluation of the parts returns
  the same with the one block as with the other in its place, and so do two queries
  that parse to the same parts but for this block.
\<close>

theorem rule_order_irrelevant:
  assumes "set (clauses s1) = set (clauses s2)"
      and "singleValued (clauses s1)"
  shows "(satisfies env s1 el \<longleftrightarrow> satisfies env s2 el)
       \<and> ((\<forall>n. noThrow env n (parseCSSRules s1)) \<longrightarrow>
            (\<forall>n. elementMatchesRules env n (parseCSSRules s1)
                   = elementMatchesRules env n (parseCSSRules s2))
            \<and> (\<forall>sel rel before after st.
                  evalParts env (before @ SelectorWithRules sel rel s1 # after) st
                    = evalParts env (before @ SelectorWithRules sel rel s2 # after) st)
            \<and> (\<forall>q1 q2 sel rel before after root findAll.
                  parseQuery q1 = Inr (before @ SelectorWithRules sel rel s1 # after)
                  \<and> parseQuery q2 = Inr (before @ SelectorWithRules sel rel s2 # after)
                  \<longrightarrow> executeQuery env q1 root findAll = executeQuery env q2 root findAll))"
proof -
  from assms(1) have "set (clauses s2) \<subseteq> set (clauses s1)" by simp
  from singleValued_subset[OF this assms(2)] have sv: "singleValued (clauses s2)" .
  have eq: "set (parseCSSRules s1) = set (parseCSSRules s2)"
    unfolding parseCSSRules_set[OF assms(2)] parseCSSRules_set[OF sv] assms(1) ..
  then have a: "satisfies env s1 el \<longleftrightarrow> satisfies env s2 el"
    unfolding satisfies_def elementMatchesRules_True by (simp only:)
  have b: "(\<forall>n. elementMatchesRules env n (parseCSSRules s1)
                   = elementMatchesRules env n (parseCSSRules s2))
            \<and> (\<forall>sel rel before after st.
                  evalParts env (before @ SelectorWithRules sel rel s1 # after) st
                    = evalParts env (before @ SelectorWithRules sel rel s2 # after) st)
            \<and> (\<forall>q1 q2 sel rel before after root findAll.
                  parseQuery q1 = Inr (before @ SelectorWithRules sel rel s1 # after)
                  \<and> parseQuery q2 = Inr (before @ SelectorWithRules sel rel s2 # after)
                  \<longrightarrow> executeQuery env q1 root findAll = executeQuery env q2 root findAll)"
    if nt: "\<forall>n. noThrow env n (parseCSSRules s1)"
  proof -
    have e: "\<forall>n. elementMatchesRules env n (parseCSSRules s1)
                   = elementMatchesRules env n (parseCSSRules s2)"
    proof
      fix n
      from nt have 1: "noThrow env n (parseCSSRules s1)" ..
      with noThrow_set[OF eq] have 2: "noThrow env n (parseCSSRules s2)" by blast
      show "elementMatchesRules env n (parseCSSRules s1) = elementMatchesRules env n (parseCSSRules s2)"
        unfolding elementMatchesRules_noThrow[OF 1] elementMatchesRules_noThrow[OF 2] eq ..
    qed
    from evalPart_rules_cong[OF e]
    have "\<forall>st. evalPart env (SelectorWithRules sel rel s1) st
                = evalPart env (SelectorWithRules sel rel s2) st" for sel rel
      by blast
    from evalParts_part_cong[OF this]
    have p: "\<forall>sel rel before after st.
                  evalParts env (before @ SelectorWithRules sel rel s1 # after) st
                    = evalParts env (before @ SelectorWithRules sel rel s2 # after) st"
      by blast
    have q: "executeQuery env q1 root findAll = executeQuery env q2 root findAll"
      if "parseQuery q1 = Inr (before @ SelectorWithRules sel rel s1 # after)
          \<and> parseQuery q2 = Inr (before @ SelectorWithRules sel rel s2 # after)"
      for q1 q2 sel rel before after root findAll
      unfolding executeQuery_def using that p by simp
    from e p q show ?thesis by blast
  qed
  from a b show ?thesis by blast
qed

theorem rule_order_irrelevant_witness:
  "(satisfies exampleEnv ''display: flex; color: #000; x'' [0]
      \<longleftrightarrow> satisfies exampleEnv ''color: #000; x;display: flex'' [0])
   \<and> satisfies exampleEnv ''display: flex; color: #000; x'' [0]
   \<and> (\<forall>n. elementMatchesRules exampleEnv n (parseCSSRules ''display: flex; color: #000; x'')
             = elementMatchesRules exampleEnv n (parseCSSRules ''color: #000; x;display: flex''))
   \<and> (\<forall>sel rel before after st.
         evalParts exampleEnv (before @ SelectorWithRules sel rel ''display: flex; color: #000; x'' # after) st
           = evalParts exampleEnv (before @ SelectorWithRules sel rel ''color: #000; x;display: flex'' # after) st)
   \<and> executeQuery exampleEnv ''.item{display: flex; color: #000; x} .label'' [] True
       = executeQuery exampleEnv ''.item{color: #000; x;display: flex} .label'' [] True
   \<and> executeQuery exampleEnv ''.item{display: flex; color: #000; x} .label'' [] True
       = Inr (FoundAll [[0, 0], [0, 0, 0], [0, 1, 0]])"
proof -
  have 1: "clauses ''display: flex; color: #000; x'' = [(''display'', ''flex''), (''color'', ''#000'')]"
    "clauses ''color: #000; x;display: flex'' = [(''color'', ''#000''), (''display'', ''flex'')]"
    "parseCSSRules ''display: flex; color: #000; x'' = [(''display'', ''flex''), (''color'', ''#000'')]"
    by code_simp+
  have 2: "set (clauses ''display: flex; color: #000; x'') = set (clauses ''color: #000; x;display: flex'')"
    unfolding 1 by (simp add: insert_commute)
  have 3: "singleValued (clauses ''display: flex; color: #000; x'')"
    unfolding 1 by (simp add: singleValued_def)
  have 4: "\<forall>n. noThrow exampleEnv n (parseCSSRules ''display: flex; color: #000; x'')"
    unfolding 1 using example_noThrow by blast
  have 5: "satisfies exampleEnv ''display: flex; color: #000; x'' [0]"
    by code_simp
  have 6: "parseQuery ''.item{display: flex; color: #000; x} .label''
             = Inr ([] @ SelectorWithRules ''.item'' Filter ''display: flex; color: #000; x'' # [Selector ''.label''])"
    "parseQuery ''.item{color: #000; x;display: flex} .label''
             = Inr ([] @ SelectorWithRules ''.item'' Filter ''color: #000; x;display: flex'' # [Selector ''.label''])"
    by code_simp+
  have 7: "executeQuery exampleEnv ''.item{display: flex; color: #000; x} .label'' [] True
       = Inr (FoundAll [[0, 0], [0, 0, 0], [0, 1, 0]])"
    by code_simp
  note t = rule_order_irrelevant[OF 2 3, of exampleEnv "[0]"]
  note u = t[THEN conjunct2, THEN mp, OF 4]
  from u have a: "\<forall>n. elementMatchesRules exampleEnv n (parseCSSRules ''display: flex; color: #000; x'')
             = elementMatchesRules exampleEnv n (parseCSSRules ''color: #000; x;display: flex'')"
    by (rule conjunct1)
  from u have b: "\<forall>sel rel before after st.
         evalParts exampleEnv (before @ SelectorWithRules sel rel ''display: flex; color: #000; x'' # after) st
           = evalParts exampleEnv (before @ SelectorWithRules sel rel ''color: #000; x;display: flex'' # after) st"
    by (elim conjE)
  from u[THEN conjunct2, THEN conjunct2, rule_format, OF conjI, OF 6]
  have c: "executeQuery exampleEnv ''.item{display: flex; color: #000; x} .label'' [] True
       = executeQuery exampleEnv ''.item{color: #000; x;display: flex} .label'' [] True" .
  from t[THEN conjunct1] 5 a b c 7 show ?thesis by (intro conjI)
qed


section \<open>Properties of the value normalizer\<close>

subsection \<open>C10: hex colours of four and five digits\<close>

lemma trim_id:
  assumes "s \<noteq> []" "\<not> isWhiteSpace (hd s)" "\<not> isWhiteSpace (last s)"
  shows "trim s = s"
proof -
  from assms(1,3) have "dropWhile isWhiteSpace (rev s) = rev s"
    by (cases "rev s") (auto simp: last_rev[symmetric] hd_rev)
  then have "trimEnd s = s" by (simp add: trimEnd_def)
  moreover from assms(1,2) have "dropWhile isWhiteSpace s = s" by (cases s) auto
  ultimately show ?thesis by (simp add: trim_def trimStart_def)
qed

lemma digit_chars: "\<forall>k \<in> set [0..<10]. char_of (48 + k) \<in> set ''0123456789''"
  by code_simp

lemma digit_char: "(k::nat) < 10 \<Longrightarrow> char_of (48 + k) \<in> set ''0123456789''"
  using digit_chars by (simp del: upt.simps)

lemma showNat_digits: "set (showNat n) \<subseteq> set ''0123456789''"
proof (induction n rule: showNat.induct)
  case (1 n)
  show ?case
  proof (cases "n < 10")
    case True
    with digit_char[of n] show ?thesis by (subst showNat.simps) simp
  next
    case False
    have "n mod 10 < 10" by simp
    from digit_char[OF this] 1[OF False] False show ?thesis
      by (subst showNat.simps) simp
  qed
qed

lemma hex_digit_all:
  "\<forall>c \<in> set ''0123456789abcdefABCDEF''.
     \<not> isWhiteSpace c \<and> toLowerChar c \<in> set ''0123456789abcdef''
     \<and> hexDigitValue (toLowerChar c) = hexDigitValue c"
  by code_simp

lemma lower_hex_all:
  "\<forall>x \<in> set ''0123456789abcdef''.
     isHexDigit x \<and> \<not> isWhiteSpace x \<and> x \<noteq> CHR ''-'' \<and> x \<noteq> CHR ''+''
     \<and> x \<noteq> CHR ''x'' \<and> x \<noteq> CHR ''X''"
  by code_simp

lemma plain_all:
  "\<forall>c \<in> set ''rgb(,)NaN0123456789''. \<not> isWhiteSpace c \<and> c \<noteq> CHR ''h'' \<and> c \<noteq> CHR ''H''"
  by code_simp

lemma hex_digit:
  assumes "isHexDigit c"
  shows "\<not> isWhiteSpace c" "toLowerChar c \<in> set ''0123456789abcdef''"
    "hexDigitValue (toLowerChar c) = hexDigitValue c"
  using assms hex_digit_all unfolding isHexDigit_def by blast+

lemma lower_hex:
  assumes "x \<in> set ''0123456789abcdef''"
  shows "isHexDigit x" "\<not> isWhiteSpace x" "x \<noteq> CHR ''-''" "x \<noteq> CHR ''+''"
    "x \<noteq> CHR ''x''" "x \<noteq> CHR ''X''"
  using assms lower_hex_all by blast+

lemma parseInt16_two:
  assumes "x \<in> set ''0123456789abcdef''" "y \<in> set ''0123456789abcdef''"
  shows "parseInt16 [x, y] = Some (int (16 * hexDigitValue x + hexDigitValue y))"
  using lower_hex[OF assms(1)] lower_hex[OF assms(2)]
  by (simp add: parseInt16_def trimStart_def Let_def)

lemma parseInt16_one:
  assumes "x \<in> set ''0123456789abcdef''"
  shows "parseInt16 [x] = Some (int (hexDigitValue x))"
  using lower_hex[OF assms(1)]
  by (simp add: parseInt16_def trimStart_def Let_def)

lemma parseInt16_Nil: "parseInt16 [] = None"
  by (simp add: parseInt16_def trimStart_def)

lemma numberToString_nat: "numberToString (Some (int n)) = showNat n"
  by (simp add: numberToString_def)

lemma show_two:
  assumes "x \<in> set ''0123456789abcdef''" "y \<in> set ''0123456789abcdef''"
  shows "numberToString (parseInt16 [x, y]) = showNat (16 * hexDigitValue x + hexDigitValue y)"
  unfolding parseInt16_two[OF assms] by (rule numberToString_nat)

lemma show_one:
  assumes "x \<in> set ''0123456789abcdef''"
  shows "numberToString (parseInt16 [x]) = showNat (hexDigitValue x)"
  unfolding parseInt16_one[OF assms] by (rule numberToString_nat)

lemma show_none: "numberToString (parseInt16 []) = ''NaN''"
  by (simp add: parseInt16_Nil numberToString_def)

lemma hslMatch_None:
  "\<forall>c \<in> set s. c \<noteq> CHR ''h'' \<and> c \<noteq> CHR ''H'' \<Longrightarrow> hslMatch s = None"
proof (induction s)
  case Nil
  then show ?case by simp
next
  case (Cons c cs)
  then have "hslPrefix (c # cs) = None"
    by (auto simp: hslPrefix_def split: list.splits)
  then have "matchHslAt (c # cs) = None" by (simp add: matchHslAt_def)
  with Cons show ?case by simp
qed

lemma rgbaReplace_id:
  "\<forall>c \<in> set s. \<not> isWhiteSpace c \<Longrightarrow> rgbaReplace k s = s"
proof (induction s arbitrary: k)
  case Nil
  then show ?case by simp
next
  case (Cons c cs)
  then show ?case by (cases k) (auto split: option.splits)
qed

lemma stripWhiteSpace_id:
  assumes "\<forall>c \<in> set s. \<not> isWhiteSpace c"
  shows "stripWhiteSpace s = s"
proof -
  from assms have "filter (\<lambda>c. \<not> isWhiteSpace c) s = s" by (simp add: filter_id_conv)
  with assms show ?thesis by (simp add: stripWhiteSpace_def rgbaReplace_id)
qed

lemma all_of_subset: "set t \<subseteq> set P \<Longrightarrow> \<forall>c \<in> set P. Q c \<Longrightarrow> \<forall>c \<in> set t. Q c"
  by blast

lemma rgb_not_named: "map_of namedColors (''rgb('' @ t) = None"
  by (simp add: namedColors_def)

lemma rgb_not_inherited: "''rgb('' @ t \<notin> set objectPrototypeKeys"
  by (simp add: objectPrototypeKeys_def)

lemma normalize_rgb_text:
  assumes "value0 \<noteq> []" "toLowerCase (trim value0) = v1" "isHexColor v1"
      and "hexToRgb v1 = ''rgb('' @ t" "set t \<subseteq> set ''rgb(,)NaN0123456789''"
  shows "normalizeCSSValue hsl value0 = Inr (''rgb('' @ t)"
proof -
  let ?v = "''rgb('' @ t"
  note pt = all_of_subset[OF assms(5) plain_all]
  from pt have p1: "\<forall>c \<in> set ?v. c \<noteq> CHR ''h'' \<and> c \<noteq> CHR ''H''" by simp
  from pt have p2: "\<forall>c \<in> set ?v. \<not> isWhiteSpace c" by (simp add: isWhiteSpace_def)
  from hslMatch_None[OF p1] have h: "hslMatch ?v = None" .
  from stripWhiteSpace_id[OF p2] have s: "stripWhiteSpace ?v = ?v" .
  show ?thesis
    unfolding normalizeCSSValue_def Let_def assms(2)
    by (simp only: assms(1,3,4) h s rgb_not_named rgb_not_inherited if_True if_False
        option.case)
qed



lemma rgb_text_plain:
  assumes "set x \<subseteq> set P" "set y \<subseteq> set P" "set z \<subseteq> set P"
      and "CHR '','' \<in> set P" "CHR '')'' \<in> set P"
  shows "set (x @ '','' @ y @ '','' @ z @ '')'') \<subseteq> set P"
  using assms by auto

lemma plain_parts:
  "set ''0123456789'' \<subseteq> set ''rgb(,)NaN0123456789''"
  "set ''NaN'' \<subseteq> set ''rgb(,)NaN0123456789''"
  "CHR '','' \<in> set ''rgb(,)NaN0123456789''"
  "CHR '')'' \<in> set ''rgb(,)NaN0123456789''"
  by code_simp+

lemma showNat_plain: "set (showNat n) \<subseteq> set ''rgb(,)NaN0123456789''"
  using showNat_digits[of n] plain_parts(1) by (rule subset_trans)

lemma hash_facts: "\<not> isWhiteSpace (CHR ''#'')" "toLowerChar (CHR ''#'') = CHR ''#''"
  by code_simp+

lemma hex_four:
  assumes "isHexDigit a" "isHexDigit b" "isHexDigit c" "isHexDigit d"
  shows "isHexColor (toLowerCase (trim [CHR ''#'', a, b, c, d]))"
    and "normalizeCSSValue hsl [CHR ''#'', a, b, c, d] =
           Inr (''rgb('' @ showNat (16 * hexDigitValue a + hexDigitValue b) @ '','' @
                showNat (16 * hexDigitValue c + hexDigitValue d) @ '','' @ ''NaN'' @ '')'')"
proof -
  let ?a = "toLowerChar a" and ?b = "toLowerChar b" and ?c = "toLowerChar c" and ?d = "toLowerChar d"
  let ?v0 = "[CHR ''#'', a, b, c, d]"
  let ?v1 = "[CHR ''#'', ?a, ?b, ?c, ?d]"
  note la = hex_digit[OF assms(1)] and lb = hex_digit[OF assms(2)]
    and lc = hex_digit[OF assms(3)] and ld = hex_digit[OF assms(4)]
  have t: "trim ?v0 = ?v0" using hash_facts(1) ld(1) by (intro trim_id) simp_all
  have v1: "toLowerCase (trim ?v0) = ?v1" by (simp add: t toLowerCase_def hash_facts)
  have hc: "isHexColor ?v1"
    using lower_hex(1)[OF la(2)] lower_hex(1)[OF lb(2)] lower_hex(1)[OF lc(2)] lower_hex(1)[OF ld(2)]
    by (simp add: isHexColor_def)
  from hc v1 show "isHexColor (toLowerCase (trim ?v0))" by simp
  let ?t = "showNat (16 * hexDigitValue a + hexDigitValue b) @ '','' @
                showNat (16 * hexDigitValue c + hexDigitValue d) @ '','' @ ''NaN'' @ '')''"
  have hr: "hexToRgb ?v1 = ''rgb('' @ ?t"
    by (simp add: hexToRgb_def removeFirst_def substring_def Let_def
        show_two[OF la(2) lb(2)] show_two[OF lc(2) ld(2)] show_none la(3) lb(3) lc(3) ld(3))
  have pl: "set ?t \<subseteq> set ''rgb(,)NaN0123456789''"
    by (rule rgb_text_plain[OF showNat_plain showNat_plain plain_parts(2) plain_parts(3) plain_parts(4)])
  have ne: "?v0 \<noteq> []" by simp
  from normalize_rgb_text[OF ne v1 hc hr pl]
  show "normalizeCSSValue hsl ?v0 = Inr (''rgb('' @ ?t)" .
qed

lemma hex_five:
  assumes "isHexDigit a" "isHexDigit b" "isHexDigit c" "isHexDigit d" "isHexDigit e"
  shows "isHexColor (toLowerCase (trim [CHR ''#'', a, b, c, d, e]))"
    and "normalizeCSSValue hsl [CHR ''#'', a, b, c, d, e] =
           Inr (''rgb('' @ showNat (16 * hexDigitValue a + hexDigitValue b) @ '','' @
                showNat (16 * hexDigitValue c + hexDigitValue d) @ '','' @
                showNat (hexDigitValue e) @ '')'')"
proof -
  let ?a = "toLowerChar a" and ?b = "toLowerChar b" and ?c = "toLowerChar c" and ?d = "toLowerChar d"
    and ?e = "toLowerChar e"
  let ?v0 = "[CHR ''#'', a, b, c, d, e]"
  let ?v1 = "[CHR ''#'', ?a, ?b, ?c, ?d, ?e]"
  note la = hex_digit[OF assms(1)] and lb = hex_digit[OF assms(2)]
    and lc = hex_digit[OF assms(3)] and ld = hex_digit[OF assms(4)] and le = hex_digit[OF assms(5)]
  have t: "trim ?v0 = ?v0" using hash_facts(1) le(1) by (intro trim_id) simp_all
  have v1: "toLowerCase (trim ?v0) = ?v1" by (simp add: t toLowerCase_def hash_facts)
  have hc: "isHexColor ?v1"
    using lower_hex(1)[OF la(2)] lower_hex(1)[OF lb(2)] lower_hex(1)[OF lc(2)] lower_hex(1)[OF ld(2)]
      lower_hex(1)[OF le(2)]
    by (simp add: isHexColor_def)
  from hc v1 show "isHexColor (toLowerCase (trim ?v0))" by simp
  let ?t = "showNat (16 * hexDigitValue a + hexDigitValue b) @ '','' @
                showNat (16 * hexDigitValue c + hexDigitValue d) @ '','' @
                showNat (hexDigitValue e) @ '')''"
  have hr: "hexToRgb ?v1 = ''rgb('' @ ?t"
    by (simp add: hexToRgb_def removeFirst_def substring_def Let_def
        show_two[OF la(2) lb(2)] show_two[OF lc(2) ld(2)] show_one[OF le(2)]
        la(3) lb(3) lc(3) ld(3) le(3))
  have pl: "set ?t \<subseteq> set ''rgb(,)NaN0123456789''"
    by (rule rgb_text_plain[OF showNat_plain showNat_plain showNat_plain plain_parts(3) plain_parts(4)])
  have ne: "?v0 \<noteq> []" by simp
  from normalize_rgb_text[OF ne v1 hc hr pl]
  show "normalizeCSSValue hsl ?v0 = Inr (''rgb('' @ ?t)" .
qed


text \<open>
  C10: a \<^verbatim>\<open>#\<close> followed by four hexadecimal digits (of either case) passes the test for a
  hex colour and is rewritten by \<^verbatim>\<open>hexToRgb\<close>: the red and green components are the
  values of the two pairs of digits, and the blue component is parsed from the empty
  substring, which gives \<^verbatim>\<open>NaN\<close>. With a fifth digit the test passes as well, and the
  blue component is the value of that one digit. Nothing later in the normalization
  changes the string.
\<close>

theorem hex_four_or_five_digits:
  assumes "isHexDigit a" "isHexDigit b" "isHexDigit c" "isHexDigit d"
  shows "isHexColor (toLowerCase (trim [CHR ''#'', a, b, c, d]))
       \<and> normalizeCSSValue hsl [CHR ''#'', a, b, c, d] =
           Inr (''rgb('' @ showNat (16 * hexDigitValue a + hexDigitValue b) @ '','' @
                showNat (16 * hexDigitValue c + hexDigitValue d) @ '','' @ ''NaN'' @ '')'')
       \<and> numberToString (parseInt16 (substring 4 6 (map toLowerChar [a, b, c, d]))) = ''NaN''
       \<and> (\<forall>e. isHexDigit e \<longrightarrow>
             isHexColor (toLowerCase (trim [CHR ''#'', a, b, c, d, e]))
             \<and> normalizeCSSValue hsl [CHR ''#'', a, b, c, d, e] =
                 Inr (''rgb('' @ showNat (16 * hexDigitValue a + hexDigitValue b) @ '','' @
                      showNat (16 * hexDigitValue c + hexDigitValue d) @ '','' @
                      showNat (hexDigitValue e) @ '')''))"
proof -
  have "numberToString (parseInt16 (substring 4 6 (map toLowerChar [a, b, c, d]))) = ''NaN''"
    by (simp add: substring_def show_none)
  with hex_four[OF assms] hex_five[OF assms] show ?thesis by blast
qed

theorem hex_four_or_five_digits_witness:
  "normalizeCSSValue (hslToRgb exampleEnv) ''#abcd'' = Inr ''rgb(171,205,NaN)''
   \<and> normalizeCSSValue (hslToRgb exampleEnv) ''#ABCDE'' = Inr ''rgb(171,205,14)''
   \<and> isHexColor ''#abcd'' \<and> isHexColor ''#abcde''"
proof -
  have h: "isHexDigit (CHR ''a'')" "isHexDigit (CHR ''b'')" "isHexDigit (CHR ''c'')"
    "isHexDigit (CHR ''d'')" "isHexDigit (CHR ''A'')" "isHexDigit (CHR ''B'')"
    "isHexDigit (CHR ''C'')" "isHexDigit (CHR ''D'')" "isHexDigit (CHR ''E'')"
    by code_simp+
  have v: "showNat (16 * hexDigitValue (CHR ''a'') + hexDigitValue (CHR ''b'')) = ''171''"
    "showNat (16 * hexDigitValue (CHR ''c'') + hexDigitValue (CHR ''d'')) = ''205''"
    "showNat (16 * hexDigitValue (CHR ''A'') + hexDigitValue (CHR ''B'')) = ''171''"
    "showNat (16 * hexDigitValue (CHR ''C'') + hexDigitValue (CHR ''D'')) = ''205''"
    "showNat (hexDigitValue (CHR ''E'')) = ''14''"
    by code_simp+
  have l: "toLowerCase (trim ''#abcd'') = ''#abcd''" "toLowerCase (trim ''#ABCDE'') = ''#abcde''"
    by code_simp+
  note t1 = hex_four_or_five_digits[OF h(1) h(2) h(3) h(4), of "hslToRgb exampleEnv"]
  note t2 = hex_four_or_five_digits[OF h(5) h(6) h(7) h(8), of "hslToRgb exampleEnv"]
  from t1[THEN conjunct2, THEN conjunct1]
  have a: "normalizeCSSValue (hslToRgb exampleEnv) ''#abcd'' = Inr ''rgb(171,205,NaN)''"
    unfolding v by simp
  from t1[THEN conjunct1] have b: "isHexColor ''#abcd''" unfolding l .
  note t2e = t2[THEN conjunct2, THEN conjunct2, THEN conjunct2, rule_format, OF h(9)]
  from t2e[THEN conjunct2]
  have c: "normalizeCSSValue (hslToRgb exampleEnv) ''#ABCDE'' = Inr ''rgb(171,205,14)''"
    unfolding v by simp
  from t2e[THEN conjunct1] have d: "isHexColor ''#abcde''" unfolding l .
  from a c b d show ?thesis by (intro conjI)
qed


end
